theory Spec2Isabelle
  imports Main
begin

section \<open>Python strings\<close>

text \<open>
  Strings are lists of characters. The string methods of Python that
  \<^verbatim>\<open>sca_check.py\<close> calls are written out here; every separator and every
  replaced text in the source is a non-empty literal, which is what the
  definitions of \<open>py_split\<close> and \<open>py_replace\<close> rely on.
\<close>

abbreviation BSL :: char where
  "BSL \<equiv> CHR 0x5C"

abbreviation NL :: char where
  "NL \<equiv> CHR 0x0A"

abbreviation DQ :: char where
  "DQ \<equiv> CHR 0x22"

abbreviation SQ :: char where
  "SQ \<equiv> CHR 0x27"

definition startswith :: "string \<Rightarrow> string \<Rightarrow> bool" where
  "startswith s p = (take (length p) s = p)"

definition endswith :: "string \<Rightarrow> string \<Rightarrow> bool" where
  "endswith s p = (length p \<le> length s \<and> drop (length s - length p) s = p)"

text \<open>\<^verbatim>\<open>str.isspace\<close> on the code points below 256.\<close>

definition isspace :: "char \<Rightarrow> bool" where
  "isspace c = (c \<in> {CHR 0x09, CHR 0x0A, CHR 0x0B, CHR 0x0C, CHR 0x0D,
                      CHR 0x1C, CHR 0x1D, CHR 0x1E, CHR 0x1F, CHR 0x20,
                      CHR 0x85, CHR 0xA0})"

definition py_strip :: "string \<Rightarrow> string" where
  "py_strip s = rev (dropWhile isspace (rev (dropWhile isspace s)))"

text \<open>\<^verbatim>\<open>s.split(sep)\<close>: cut at the occurrences of \<open>sep\<close>, leftmost first.\<close>

fun py_split :: "string \<Rightarrow> string \<Rightarrow> string list" where
  "py_split sep [] = [[]]"
| "py_split sep (c # cs) =
     (if startswith (c # cs) sep then [] # py_split sep (drop (length sep - 1) cs)
      else (case py_split sep cs of
              [] \<Rightarrow> [[c]]
            | w # ws \<Rightarrow> (c # w) # ws))"

text \<open>\<^verbatim>\<open>s.replace(old, new)\<close>: every occurrence, leftmost first, not overlapping.\<close>

fun py_replace :: "string \<Rightarrow> string \<Rightarrow> string \<Rightarrow> string" where
  "py_replace old new [] = []"
| "py_replace old new (c # cs) =
     (if startswith (c # cs) old then new @ py_replace old new (drop (length old - 1) cs)
      else c # py_replace old new cs)"

section \<open>Exceptions and three-valued outcomes\<close>

text \<open>
  \<open>exn\<close> lists subclasses of \<^verbatim>\<open>Exception\<close>: what the source raises itself and what
  the library calls it makes can raise. \<^verbatim>\<open>KeyboardInterrupt\<close> is not one of them
  (an \<^verbatim>\<open>except Exception\<close> clause lets it through); \<open>abort\<close> adds it.
\<close>

datatype exn =
  ValueError | IndexError | KeyError | TypeError
  | FileNotFoundError | IsADirectoryError | NotADirectoryError
  | TimeoutError | OSError | ReError | EOFError

datatype abort = Raised exn | KeyboardInterrupt

text \<open>
  A rule or a check yields \<^verbatim>\<open>True\<close>, \<^verbatim>\<open>False\<close> or \<^verbatim>\<open>None\<close>
  (not applicable): \<open>Some True\<close>, \<open>Some False\<close>, \<open>None\<close>.
\<close>

type_synonym outcome = "bool option"

section \<open>Regex: the pattern dialect\<close>

record Regex =
  pattern :: string
  chains :: "string list"

text \<open>The chain of \<^verbatim>\<open>replace\<close> calls of \<^verbatim>\<open>Regex.__init__\<close>, in the source's order.\<close>

definition translate :: "string \<Rightarrow> string" where
  "translate p =
     py_replace (BSL # ''p'') (''[()*+,-.:;<=>?[]!'' @ [DQ, SQ] @ ''#$%&|{}]'')
     (py_replace (BSL # ''S'') ''[^ ]''
     (py_replace (BSL # ''s'') ''[ ]''
     (py_replace (BSL # ''W'') ''[^A-Za-z0-9-@_]''
     (py_replace (BSL # ''w'') ''[A-Za-z0-9-@_]''
     (py_replace ''REGEX_DOT'' ''.''
     (py_replace ''.'' (BSL # ''.'')
     (py_replace (BSL # ''.'') ''REGEX_DOT''
     (py_replace ''*'' ''*?'' p))))))))"

definition Regex_init :: "string \<Rightarrow> Regex" where
  "Regex_init p = \<lparr>pattern = p, chains = map py_strip (py_split ''&&'' (translate p))\<rparr>"

text \<open>
  The result of the chain of replacements, said in one pass over the pattern
  from left to right: a star becomes \<^verbatim>\<open>*?\<close>, a backslash followed by a dot
  becomes a bare dot, any other dot becomes a backslash and a dot, and every
  other character is kept; \<open>classes\<close> is the rest of the chain, the five
  replacements of the character classes. \<open>mark\<close> is the text on the way: after
  the first two replacements, and (\<open>esc\<close>) after the third.
\<close>

fun occurs :: "string \<Rightarrow> string \<Rightarrow> bool" where
  "occurs t [] = (t = [])"
| "occurs t (c # cs) = (startswith (c # cs) t \<or> occurs t cs)"

fun retext :: "string \<Rightarrow> string" where
  "retext [] = []"
| "retext (c # cs) =
     (if c = CHR ''*'' then ''*?'' @ retext cs
      else if c = BSL \<and> startswith cs ''.'' then ''.'' @ retext (drop 1 cs)
      else if c = CHR ''.'' then [BSL, CHR ''.''] @ retext cs
      else c # retext cs)"

fun mark :: "bool \<Rightarrow> string \<Rightarrow> string" where
  "mark esc [] = []"
| "mark esc (c # cs) =
     (if c = CHR ''*'' then ''*?'' @ mark esc cs
      else if c = BSL \<and> startswith cs ''.'' then ''REGEX_DOT'' @ mark esc (drop 1 cs)
      else if c = CHR ''.'' \<and> esc then [BSL, CHR ''.''] @ mark esc cs
      else c # mark esc cs)"

definition classes :: "string \<Rightarrow> string" where
  "classes s =
     py_replace (BSL # ''p'') (''[()*+,-.:;<=>?[]!'' @ [DQ, SQ] @ ''#$%&|{}]'')
     (py_replace (BSL # ''S'') ''[^ ]''
     (py_replace (BSL # ''s'') ''[ ]''
     (py_replace (BSL # ''W'') ''[^A-Za-z0-9-@_]''
     (py_replace (BSL # ''w'') ''[A-Za-z0-9-@_]'' s))))"

text \<open>
  To speak about what the dots of a pattern match: a pattern as a list of
  pieces, a dot written as it is, a dot written after a backslash, or any
  other character. \<open>source_text\<close> is the pattern as written, \<open>regex_text\<close> the
  same pieces in the syntax of \<^verbatim>\<open>re\<close>, where \<^verbatim>\<open>\.\<close> is the character and
  \<^verbatim>\<open>.\<close> stands for any character but the newline.
\<close>

datatype piece = Lit char | Dot | EscDot

fun source_text :: "piece list \<Rightarrow> string" where
  "source_text [] = []"
| "source_text (Lit c # ps) = c # source_text ps"
| "source_text (Dot # ps) = ''.'' @ source_text ps"
| "source_text (EscDot # ps) = [BSL, CHR ''.''] @ source_text ps"

fun regex_text :: "piece list \<Rightarrow> string" where
  "regex_text [] = []"
| "regex_text (Lit c # ps) = c # regex_text ps"
| "regex_text (Dot # ps) = [BSL, CHR ''.''] @ regex_text ps"
| "regex_text (EscDot # ps) = ''.'' @ regex_text ps"

text \<open>
  Python's \<^verbatim>\<open>re\<close> module and \<^verbatim>\<open>int\<close> are not part of the program: they are
  taken as given. \<open>re_findall p s\<close> is \<^verbatim>\<open>re.findall(p, s, flags=re.I)\<close>, whose
  items are strings (a pattern with at most one group) or tuples of strings;
  it raises on a pattern that does not compile. \<open>int_str\<close> is \<^verbatim>\<open>int\<close> on a string.
\<close>

datatype re_match = MStr string | MTuple "string list"

record pylib =
  re_findall :: "string \<Rightarrow> string \<Rightarrow> exn + re_match list"
  int_str :: "string \<Rightarrow> exn + int"

definition int_match :: "pylib \<Rightarrow> re_match \<Rightarrow> exn + int" where
  "int_match L m = (case m of MStr s \<Rightarrow> int_str L s | MTuple ss \<Rightarrow> Inl TypeError)"

text \<open>The dictionary \<^verbatim>\<open>Regex.ops\<close>.\<close>

definition ops :: "string \<Rightarrow> (int \<Rightarrow> int \<Rightarrow> bool) option" where
  "ops op =
     (if op = ''<'' then Some (\<lambda>a b. a < b)
      else if op = ''<='' then Some (\<lambda>a b. a \<le> b)
      else if op = ''=<'' then Some (\<lambda>a b. a \<le> b)
      else if op = ''=='' then Some (\<lambda>a b. a = b)
      else if op = ''!='' then Some (\<lambda>a b. a \<noteq> b)
      else if op = ''=>'' then Some (\<lambda>a b. a \<ge> b)
      else if op = ''>='' then Some (\<lambda>a b. a \<ge> b)
      else if op = ''>'' then Some (\<lambda>a b. a > b)
      else None)"

text \<open>The pattern of the numeric comparison, as the source writes it.\<close>

definition compare_regex :: string where
  "compare_regex =
     ''n:(.*)?'' @ [BSL] @ ''s+compare'' @ [BSL] @ ''s+([<>=!]*)'' @ [BSL] @ ''s+('' @ [BSL] @ ''d+)''"

text \<open>
  \<^verbatim>\<open>pattern, op, standard_value = ...[0]\<close>: the first item, unpacked into three
  names (a string of three characters unpacks too).
\<close>

definition unpack3 :: "re_match list \<Rightarrow> exn + string \<times> string \<times> string" where
  "unpack3 ms =
     (case ms of
        [] \<Rightarrow> Inl IndexError
      | MTuple [a, b, c] # _ \<Rightarrow> Inr (a, b, c)
      | MStr [a, b, c] # _ \<Rightarrow> Inr ([a], [b], [c])
      | _ \<Rightarrow> Inl ValueError)"

text \<open>
  One chain on one line: \<open>Inr True\<close> when the chain holds and the loop over the
  chains goes on, \<open>Inr False\<close> when it reaches \<^verbatim>\<open>break\<close>.
\<close>

definition chain_holds :: "pylib \<Rightarrow> string \<Rightarrow> string \<Rightarrow> exn + bool" where
  "chain_holds L chain line =
     (if startswith chain ''r:'' then
        (case re_findall L (drop 2 chain) line of
           Inl e \<Rightarrow> Inl e
         | Inr ms \<Rightarrow> Inr (ms \<noteq> []))
      else if startswith chain ''!r:'' then
        (case re_findall L (drop 3 chain) line of
           Inl e \<Rightarrow> Inl e
         | Inr ms \<Rightarrow> Inr (ms = []))
      else if startswith chain ''n:'' then
        (case re_findall L compare_regex chain of
           Inl e \<Rightarrow> Inl e
         | Inr found \<Rightarrow>
            (case unpack3 found of
               Inl e \<Rightarrow> Inl e
             | Inr (pat, op, standard_value) \<Rightarrow>
                (case re_findall L pat line of
                   Inl e \<Rightarrow> Inl e
                 | Inr [] \<Rightarrow> Inr False
                 | Inr (v # vs) \<Rightarrow>
                    (case ops op of
                       None \<Rightarrow> Inl KeyError
                     | Some cmp \<Rightarrow>
                        (case int_match L v of
                           Inl e \<Rightarrow> Inl e
                         | Inr a \<Rightarrow>
                            (case int_str L standard_value of
                               Inl e \<Rightarrow> Inl e
                             | Inr b \<Rightarrow> Inr (cmp a b)))))))
      else Inr (chain = line))"

text \<open>The inner loop of \<^verbatim>\<open>Regex.check\<close>; its \<^verbatim>\<open>else\<close> branch is the empty list.\<close>

fun chains_loop :: "pylib \<Rightarrow> string list \<Rightarrow> string \<Rightarrow> exn + bool" where
  "chains_loop L [] line = Inr True"
| "chains_loop L (chain # rest) line =
     (case chain_holds L chain line of
        Inl e \<Rightarrow> Inl e
      | Inr False \<Rightarrow> Inr False
      | Inr True \<Rightarrow> chains_loop L rest line)"

fun lines_loop :: "pylib \<Rightarrow> string list \<Rightarrow> string list \<Rightarrow> exn + bool" where
  "lines_loop L cs [] = Inr False"
| "lines_loop L cs (line # rest) =
     (case chains_loop L cs line of
        Inl e \<Rightarrow> Inl e
      | Inr True \<Rightarrow> Inr True
      | Inr False \<Rightarrow> lines_loop L cs rest)"

definition Regex_check :: "pylib \<Rightarrow> Regex \<Rightarrow> string \<Rightarrow> exn + bool" where
  "Regex_check L R txt = lines_loop L (chains R) (py_split [NL] txt)"

text \<open>
  What \<^verbatim>\<open>re.findall\<close> is taken to do on the patterns made of letters, digits,
  \<^verbatim>\<open>\.\<close> and \<^verbatim>\<open>.\<close> only: it does not raise, and it finds something exactly
  when the pieces match the text at some position, a letter or digit matching
  itself in either case (\<^verbatim>\<open>re.I\<close>), \<^verbatim>\<open>\.\<close> the dot, and \<^verbatim>\<open>.\<close> any character
  but the newline.
\<close>

definition alnum :: "char \<Rightarrow> bool" where
  "alnum c = (c \<in> set ''abcdefghijklmnopqrstuvwxyzABCDEFGHIJKLMNOPQRSTUVWXYZ0123456789'')"

definition lower :: "char \<Rightarrow> char" where
  "lower c =
     (case map_of (zip ''ABCDEFGHIJKLMNOPQRSTUVWXYZ'' ''abcdefghijklmnopqrstuvwxyz'') c of
        Some d \<Rightarrow> d
      | None \<Rightarrow> c)"

fun simple :: "piece \<Rightarrow> bool" where
  "simple (Lit c) = alnum c"
| "simple Dot = True"
| "simple EscDot = True"

fun piece_matches :: "piece \<Rightarrow> char \<Rightarrow> bool" where
  "piece_matches (Lit c) x = (lower c = lower x)"
| "piece_matches Dot x = (x = CHR ''.'')"
| "piece_matches EscDot x = (x \<noteq> NL)"

fun matches_here :: "piece list \<Rightarrow> string \<Rightarrow> bool" where
  "matches_here [] s = True"
| "matches_here (p # ps) [] = False"
| "matches_here (p # ps) (x # xs) = (piece_matches p x \<and> matches_here ps xs)"

fun matches_somewhere :: "piece list \<Rightarrow> string \<Rightarrow> bool" where
  "matches_somewhere ps [] = matches_here ps []"
| "matches_somewhere ps (x # xs) = (matches_here ps (x # xs) \<or> matches_somewhere ps xs)"

definition dot_semantics :: "pylib \<Rightarrow> bool" where
  "dot_semantics L =
     (\<forall>ps s. list_all simple ps \<longrightarrow>
        (\<exists>ms. re_findall L (regex_text ps) s = Inr ms \<and> (ms \<noteq> []) = matches_somewhere ps s))"

section \<open>Rule: parsing a rule string\<close>

datatype path = Path string | Child path string

datatype tag =
  FileExistence | RegexAgainstFile | RegexAgainstCommand
  | DirExistence | DirContains | RegexAgainstDir | CheckProcessExists

text \<open>
  The predicate a parsed rule calls, with the keyword arguments it binds:
  the fields \<^verbatim>\<open>function\<close> and \<^verbatim>\<open>kwargs\<close> of \<^verbatim>\<open>ParsedRule\<close>.
\<close>

datatype call =
  Call_file_exists path
  | Call_regex_against_file path Regex
  | Call_regex_against_command string Regex
  | Call_dir_exists path
  | Call_dir_contains path Regex
  | Call_regex_against_dir path Regex Regex
  | Call_process_exists string

record ParsedRule =
  tag :: tag
  func :: call
  revert :: bool

record Rule =
  check_id :: int
  rule :: string
  parsed :: "ParsedRule option"

text \<open>
  \<^verbatim>\<open>Rule.parse\<close>. \<open>rl\<close> is the list \<^verbatim>\<open>rule\<close> after the loop that strips its items.
\<close>

definition parse :: "string \<Rightarrow> exn + ParsedRule" where
  "parse r =
     (let rl = map py_strip (py_split ''->'' r)
      in case rl of
        [] \<Rightarrow> Inl IndexError
      | to_check0 # _ \<Rightarrow>
       (let revert = startswith to_check0 ''not '';
            to_check = (if revert then drop 4 to_check0 else to_check0)
        in
        if startswith to_check ''f:'' then
          (if length rl = 1 then
             Inr \<lparr>tag = FileExistence, func = Call_file_exists (Path (drop 2 to_check)),
                  revert = revert\<rparr>
           else if length rl = 2 then
             Inr \<lparr>tag = RegexAgainstFile,
                  func = Call_regex_against_file (Path (drop 2 to_check)) (Regex_init (rl ! 1)),
                  revert = revert\<rparr>
           else Inl ValueError)
        else if startswith to_check ''c:'' then
          (if length rl = 2 then
             Inr \<lparr>tag = RegexAgainstCommand,
                  func = Call_regex_against_command (drop 2 to_check) (Regex_init (rl ! 1)),
                  revert = revert\<rparr>
           else Inl ValueError)
        else if startswith to_check ''d:'' then
          (if length rl = 1 then
             Inr \<lparr>tag = DirExistence, func = Call_dir_exists (Path (drop 2 to_check)),
                  revert = revert\<rparr>
           else if length rl = 2 then
             Inr \<lparr>tag = DirContains,
                  func = Call_dir_contains (Path (drop 2 to_check)) (Regex_init (rl ! 1)),
                  revert = revert\<rparr>
           else if length rl = 3 then
             Inr \<lparr>tag = RegexAgainstDir,
                  func = Call_regex_against_dir (Path (drop 2 to_check))
                           (Regex_init (rl ! 1)) (Regex_init (rl ! 2)),
                  revert = revert\<rparr>
           else Inl ValueError)
        else if startswith to_check ''p:'' then
          (if length rl = 1 then
             Inr \<lparr>tag = CheckProcessExists, func = Call_process_exists (drop 2 to_check),
                  revert = revert\<rparr>
           else Inl ValueError)
        else if startswith to_check ''r:'' then Inl ValueError
        else Inl ValueError))"

text \<open>\<^verbatim>\<open>Rule.__init__\<close>: a rule that does not parse is kept, with \<open>parsed = None\<close>.\<close>

definition Rule_init :: "int \<Rightarrow> string \<Rightarrow> Rule" where
  "Rule_init cid r =
     \<lparr>check_id = cid, rule = r,
      parsed = (case parse r of Inl e \<Rightarrow> None | Inr p \<Rightarrow> Some p)\<rparr>"

section \<open>The host and the predicates of a rule\<close>

text \<open>
  What the machine answers to the probes of the program: \<^verbatim>\<open>Path.exists\<close>,
  \<^verbatim>\<open>Path.is_dir\<close>, \<^verbatim>\<open>Path.is_file\<close>, \<^verbatim>\<open>open(path).read()\<close>,
  \<^verbatim>\<open>os.listdir\<close> and \<^verbatim>\<open>os.popen(cmd).read()\<close>. A probe is an observation:
  evaluating a rule leaves the host as it is.
\<close>

record host =
  path_exists :: "path \<Rightarrow> bool"
  path_is_dir :: "path \<Rightarrow> bool"
  path_is_file :: "path \<Rightarrow> bool"
  read_file :: "path \<Rightarrow> exn + string"
  listdir :: "path \<Rightarrow> exn + string list"
  popen :: "string \<Rightarrow> exn + string"

fun str_nat :: "nat \<Rightarrow> string" where
  "str_nat n =
     (if n < 10 then [''0123456789'' ! n]
      else str_nat (n div 10) @ [''0123456789'' ! (n mod 10)])"

text \<open>The command line \<^verbatim>\<open>_cmd\<close> that \<^verbatim>\<open>execute\<close> hands to the shell.\<close>

definition shell_line :: "string \<Rightarrow> nat \<Rightarrow> string" where
  "shell_line cmd timeout =
     (if timeout \<noteq> 0 then
        ''timeout '' @ str_nat timeout @ '' '' @ cmd
          @ '' 2>&1; [ $? -eq 124 ] && echo '' @ [DQ] @ ''BASH_TIMEOUT'' @ [DQ] @ '';''
      else cmd @ '' 2>&1'')"

text \<open>
  \<^verbatim>\<open>execute(cmd, ask=False, timeout)\<close>; the rules never pass \<^verbatim>\<open>ask\<close>, so no
  prompt is shown and the output is not printed.
\<close>

definition execute :: "host \<Rightarrow> string \<Rightarrow> nat \<Rightarrow> exn + string" where
  "execute h cmd timeout =
     (case popen h (shell_line cmd timeout) of
        Inl e \<Rightarrow> Inl e
      | Inr output \<Rightarrow>
          if endswith output (''BASH_TIMEOUT'' @ [NL]) then Inl TimeoutError
          else Inr output)"

definition check_regex_against_command :: "pylib \<Rightarrow> host \<Rightarrow> string \<Rightarrow> Regex \<Rightarrow> exn + bool" where
  "check_regex_against_command L h cmd regex =
     (case execute h cmd 10 of
        Inl e \<Rightarrow> Inl e
      | Inr output \<Rightarrow> Regex_check L regex output)"

text \<open>The command of \<^verbatim>\<open>check_process_exists\<close>.\<close>

definition pgrep_line :: "string \<Rightarrow> string" where
  "pgrep_line process_name =
     ''pgrep -x '' @ [DQ] @ process_name @ [DQ]
       @ '' > /dev/null && echo '' @ [DQ] @ ''running'' @ [DQ]"

definition check_process_exists :: "host \<Rightarrow> string \<Rightarrow> exn + bool" where
  "check_process_exists h process_name =
     (case execute h (pgrep_line process_name) 0 of
        Inl e \<Rightarrow> Inl e
      | Inr output \<Rightarrow> Inr (output = ''running'' @ [NL]))"

definition check_file_exists :: "host \<Rightarrow> path \<Rightarrow> exn + bool" where
  "check_file_exists h p =
     (if path_exists h p then
        (if path_is_dir h p then Inl IsADirectoryError else Inr True)
      else Inr False)"

definition check_regex_against_file :: "pylib \<Rightarrow> host \<Rightarrow> path \<Rightarrow> Regex \<Rightarrow> exn + bool" where
  "check_regex_against_file L h p regex =
     (if \<not> path_exists h p then Inl FileNotFoundError
      else if path_is_dir h p then Inl IsADirectoryError
      else (case read_file h p of
              Inl e \<Rightarrow> Inl e
            | Inr content \<Rightarrow> Regex_check L regex content))"

definition check_dir_exists :: "host \<Rightarrow> path \<Rightarrow> exn + bool" where
  "check_dir_exists h p =
     (if path_exists h p then
        (if \<not> path_is_dir h p then Inl NotADirectoryError else Inr True)
      else Inr False)"

fun dir_contains_loop :: "pylib \<Rightarrow> host \<Rightarrow> path \<Rightarrow> Regex \<Rightarrow> string list \<Rightarrow> exn + bool" where
  "dir_contains_loop L h p file_pattern [] = Inr False"
| "dir_contains_loop L h p file_pattern (file_name # rest) =
     (if path_is_file h (Child p file_name) then
        (case Regex_check L file_pattern file_name of
           Inl e \<Rightarrow> Inl e
         | Inr True \<Rightarrow> Inr True
         | Inr False \<Rightarrow> dir_contains_loop L h p file_pattern rest)
      else dir_contains_loop L h p file_pattern rest)"

definition check_dir_contains :: "pylib \<Rightarrow> host \<Rightarrow> path \<Rightarrow> Regex \<Rightarrow> exn + bool" where
  "check_dir_contains L h p file_pattern =
     (if \<not> path_exists h p then Inl FileNotFoundError
      else if \<not> path_is_dir h p then Inl NotADirectoryError
      else (case listdir h p of
              Inl e \<Rightarrow> Inl e
            | Inr names \<Rightarrow> dir_contains_loop L h p file_pattern names))"

fun regex_against_dir_loop ::
  "pylib \<Rightarrow> host \<Rightarrow> path \<Rightarrow> Regex \<Rightarrow> Regex \<Rightarrow> string list \<Rightarrow> exn + bool" where
  "regex_against_dir_loop L h p file_pattern regex [] = Inr False"
| "regex_against_dir_loop L h p file_pattern regex (file_name # rest) =
     (if path_is_file h (Child p file_name) then
        (case Regex_check L file_pattern file_name of
           Inl e \<Rightarrow> Inl e
         | Inr False \<Rightarrow> regex_against_dir_loop L h p file_pattern regex rest
         | Inr True \<Rightarrow>
            (case read_file h (Child p file_name) of
               Inl e \<Rightarrow> Inl e
             | Inr content \<Rightarrow>
                (case Regex_check L regex content of
                   Inl e \<Rightarrow> Inl e
                 | Inr True \<Rightarrow> Inr True
                 | Inr False \<Rightarrow> regex_against_dir_loop L h p file_pattern regex rest)))
      else regex_against_dir_loop L h p file_pattern regex rest)"

definition check_regex_against_dir ::
  "pylib \<Rightarrow> host \<Rightarrow> path \<Rightarrow> Regex \<Rightarrow> Regex \<Rightarrow> exn + bool" where
  "check_regex_against_dir L h p file_pattern regex =
     (if \<not> path_exists h p then Inl FileNotFoundError
      else if \<not> path_is_dir h p then Inl NotADirectoryError
      else (case listdir h p of
              Inl e \<Rightarrow> Inl e
            | Inr names \<Rightarrow> regex_against_dir_loop L h p file_pattern regex names))"

text \<open>\<^verbatim>\<open>self.parsed.function(**self.parsed.kwargs)\<close>.\<close>

fun run_call :: "pylib \<Rightarrow> host \<Rightarrow> call \<Rightarrow> exn + bool" where
  "run_call L h (Call_file_exists p) = check_file_exists h p"
| "run_call L h (Call_regex_against_file p regex) = check_regex_against_file L h p regex"
| "run_call L h (Call_regex_against_command cmd regex) = check_regex_against_command L h cmd regex"
| "run_call L h (Call_dir_exists p) = check_dir_exists h p"
| "run_call L h (Call_dir_contains p file_pattern) = check_dir_contains L h p file_pattern"
| "run_call L h (Call_regex_against_dir p file_pattern regex) =
     check_regex_against_dir L h p file_pattern regex"
| "run_call L h (Call_process_exists process_name) = check_process_exists h process_name"

text \<open>
  \<^verbatim>\<open>Rule.check\<close>. The \<^verbatim>\<open>except Exception\<close> branch prints and falls off the end of
  the method, which returns \<^verbatim>\<open>None\<close>.
\<close>

definition Rule_check :: "pylib \<Rightarrow> host \<Rightarrow> Rule \<Rightarrow> outcome" where
  "Rule_check L h r =
     (case parsed r of
        None \<Rightarrow> Some True
      | Some p \<Rightarrow>
         (case run_call L h (func p) of
            Inr res \<Rightarrow> (if revert p then Some (\<not> res) else Some res)
          | Inl e \<Rightarrow> None))"

section \<open>Rules: the rule list of a check and its aggregation\<close>

record Rules =
  condition :: string
  parsed_rules :: "Rule list"

definition is_existence :: "Rule \<Rightarrow> bool" where
  "is_existence r =
     (case parsed r of
        None \<Rightarrow> False
      | Some p \<Rightarrow> tag p \<in> {FileExistence, DirExistence, DirContains})"

text \<open>
  The loop of \<^verbatim>\<open>Rules.__init__\<close>: each rule string is parsed and appended to one
  of two lists, which are concatenated at the end.
\<close>

fun sort_rules :: "int \<Rightarrow> string list \<Rightarrow> Rule list \<Rightarrow> Rule list \<Rightarrow> Rule list \<times> Rule list" where
  "sort_rules cid [] ex nonex = (ex, nonex)"
| "sort_rules cid (r # rs) ex nonex =
     (let parsed_rule = Rule_init cid r
      in if is_existence parsed_rule then sort_rules cid rs (ex @ [parsed_rule]) nonex
         else sort_rules cid rs ex (nonex @ [parsed_rule]))"

definition Rules_init :: "int \<Rightarrow> string \<Rightarrow> string list \<Rightarrow> Rules" where
  "Rules_init cid cond rs =
     (case sort_rules cid rs [] [] of
        (existence_check_rules, non_existence_check_rules) \<Rightarrow>
          \<lparr>condition = cond, parsed_rules = existence_check_rules @ non_existence_check_rules\<rparr>)"

text \<open>
  The three loops of \<^verbatim>\<open>Rules.check\<close>. \<open>chk\<close> is \<^verbatim>\<open>rule.check()\<close>; the second
  argument is the flag \<^verbatim>\<open>not_applicable\<close>; the result comes with the rules whose
  check was called, in the order of the calls.
\<close>

fun all_loop :: "('r \<Rightarrow> outcome) \<Rightarrow> bool \<Rightarrow> 'r list \<Rightarrow> outcome \<times> 'r list" where
  "all_loop chk na [] = (if na then None else Some True, [])"
| "all_loop chk na (r # rs) =
     (case chk r of
        Some False \<Rightarrow> (Some False, [r])
      | None \<Rightarrow> (case all_loop chk True rs of (res, seen) \<Rightarrow> (res, r # seen))
      | Some True \<Rightarrow> (case all_loop chk na rs of (res, seen) \<Rightarrow> (res, r # seen)))"

fun any_loop :: "('r \<Rightarrow> outcome) \<Rightarrow> bool \<Rightarrow> 'r list \<Rightarrow> outcome \<times> 'r list" where
  "any_loop chk na [] = (if na then None else Some False, [])"
| "any_loop chk na (r # rs) =
     (case chk r of
        Some True \<Rightarrow> (Some True, [r])
      | None \<Rightarrow> (case any_loop chk True rs of (res, seen) \<Rightarrow> (res, r # seen))
      | Some False \<Rightarrow> (case any_loop chk na rs of (res, seen) \<Rightarrow> (res, r # seen)))"

fun none_loop :: "('r \<Rightarrow> outcome) \<Rightarrow> bool \<Rightarrow> 'r list \<Rightarrow> outcome \<times> 'r list" where
  "none_loop chk na [] = (if na then None else Some True, [])"
| "none_loop chk na (r # rs) =
     (case chk r of
        Some True \<Rightarrow> (Some False, [r])
      | None \<Rightarrow> (case none_loop chk True rs of (res, seen) \<Rightarrow> (res, r # seen))
      | Some False \<Rightarrow> (case none_loop chk na rs of (res, seen) \<Rightarrow> (res, r # seen)))"

definition aggregate :: "('r \<Rightarrow> outcome) \<Rightarrow> string \<Rightarrow> 'r list \<Rightarrow> exn + outcome \<times> 'r list" where
  "aggregate chk cond rs =
     (if cond = ''all'' then Inr (all_loop chk False rs)
      else if cond = ''any'' then Inr (any_loop chk False rs)
      else if cond = ''none'' then Inr (none_loop chk False rs)
      else Inl ValueError)"

definition Rules_check :: "pylib \<Rightarrow> host \<Rightarrow> Rules \<Rightarrow> exn + outcome \<times> Rule list" where
  "Rules_check L h R = aggregate (Rule_check L h) (condition R) (parsed_rules R)"

section \<open>Solution: the action tree\<close>

text \<open>
  The values a primitive returns and a solution document declares: \<^verbatim>\<open>None\<close>,
  booleans, integers and strings. \<open>py_eq\<close> is Python's \<^verbatim>\<open>==\<close> on them, for which
  \<^verbatim>\<open>True\<close> is the integer 1 and \<^verbatim>\<open>False\<close> the integer 0.
\<close>

datatype pyval = PNone | PBool bool | PInt int | PStr string

fun py_eq :: "pyval \<Rightarrow> pyval \<Rightarrow> bool" where
  "py_eq (PBool b) (PInt n) = ((if b then 1 else 0) = n)"
| "py_eq (PInt n) (PBool b) = (n = (if b then 1 else 0))"
| "py_eq a b = (a = b)"

text \<open>
  \<^verbatim>\<open>SolutionAct\<close>: the name of the function, its arguments, and the list
  \<^verbatim>\<open>on_response\<close> of declared values with their nested acts.
\<close>

datatype act = Act string "pyval list" "(string \<times> pyval) list" "(pyval \<times> act list) list"

record Solution =
  recheck :: "bool option"
  acts :: "act list option"

text \<open>
  What the user will type at the next prompts. \<^verbatim>\<open>input\<close> raises
  \<^verbatim>\<open>KeyboardInterrupt\<close> on Ctrl-C and \<^verbatim>\<open>EOFError\<close> at the end of the input.
\<close>

datatype key = Typed string | CtrlC

record env =
  host :: host
  keyboard :: "key list"

text \<open>
  What the program prints or does, in order, as far as the properties below
  need it.
\<close>

datatype event =
  Called string "pyval list"
  | Returned pyval
  | StatusLine string int
  | Rechecking
  | RecheckFailed nat
  | MaxTries
  | ApplyStart
  | ApplyEnd

text \<open>
  The class attributes \<^verbatim>\<open>Check.passed\<close>, \<^verbatim>\<open>Check.failed\<close> and
  \<^verbatim>\<open>Check.not_applicable\<close>: lists of check objects, each object named by its id.
\<close>

record registry =
  passed :: "int list"
  failed :: "int list"
  not_applicable :: "int list"

record world =
  env :: env
  reg :: registry
  out :: "event list"

text \<open>
  The functions an act can name (\<^verbatim>\<open>globals()[self.function]\<close>, called with the
  act's arguments) are taken as given: a call changes the environment and
  returns a value or raises.
\<close>

type_synonym prims = "string \<Rightarrow> pyval list \<Rightarrow> (string \<times> pyval) list \<Rightarrow> env \<Rightarrow> env \<times> (abort + pyval)"

text \<open>
  \<^verbatim>\<open>SolutionAct.apply\<close>, its loop over \<^verbatim>\<open>on_response\<close>, and
  \<^verbatim>\<open>SolutionActs.apply\<close>. The second component is the exception that ended the
  run, if one did.
\<close>

fun SolutionAct_apply :: "prims \<Rightarrow> act \<Rightarrow> world \<Rightarrow> world \<times> abort option"
  and responses_loop :: "prims \<Rightarrow> pyval \<Rightarrow> (pyval \<times> act list) list \<Rightarrow> world \<Rightarrow> world \<times> abort option"
  and SolutionActs_apply :: "prims \<Rightarrow> act list \<Rightarrow> world \<Rightarrow> world \<times> abort option"
where
  "SolutionAct_apply P (Act f args kw on_response) w =
     (case P f args kw (env w) of
        (e, Inl a) \<Rightarrow> (w\<lparr>env := e, out := out w @ [Called f args]\<rparr>, Some a)
      | (e, Inr resp) \<Rightarrow>
          responses_loop P resp on_response
            (w\<lparr>env := e, out := out w @ [Called f args, Returned resp]\<rparr>))"
| "responses_loop P resp [] w = (w, None)"
| "responses_loop P resp ((v, nested) # rest) w =
     (if py_eq resp v then
        (case SolutionActs_apply P nested w of
           (w', Some a) \<Rightarrow> (w', Some a)
         | (w', None) \<Rightarrow> responses_loop P resp rest w')
      else responses_loop P resp rest w)"
| "SolutionActs_apply P [] w = (w, None)"
| "SolutionActs_apply P (action # rest) w =
     (case SolutionAct_apply P action w of
        (w', Some a) \<Rightarrow> (w', Some a)
      | (w', None) \<Rightarrow> SolutionActs_apply P rest w')"

definition Solution_apply :: "prims \<Rightarrow> Solution \<Rightarrow> world \<Rightarrow> world \<times> abort option" where
  "Solution_apply P sol w =
     (case acts sol of
        None \<Rightarrow> (w, None)
      | Some parsed_acts \<Rightarrow> SolutionActs_apply P parsed_acts w)"

section \<open>Check: evaluation and remediation\<close>

record Check =
  ident :: int
  title :: string
  rules :: Rules
  solution :: Solution
  status :: "string option"

text \<open>\<^verbatim>\<open>Check.check\<close>: evaluate the rules, set the status, append to one list.\<close>

definition Check_check :: "pylib \<Rightarrow> Check \<Rightarrow> world \<Rightarrow> (Check \<times> world) \<times> (abort + outcome)" where
  "Check_check L c w =
     (case Rules_check L (host (env w)) (rules c) of
        Inl e \<Rightarrow> ((c, w), Inl (Raised e))
      | Inr (res, seen) \<Rightarrow>
         (case res of
            Some True \<Rightarrow>
              ((c\<lparr>status := Some ''PASSED''\<rparr>,
                w\<lparr>reg := (reg w)\<lparr>passed := passed (reg w) @ [ident c]\<rparr>,
                  out := out w @ [StatusLine ''PASSED'' (ident c)]\<rparr>), Inr res)
          | Some False \<Rightarrow>
              ((c\<lparr>status := Some ''FAILED''\<rparr>,
                w\<lparr>reg := (reg w)\<lparr>failed := failed (reg w) @ [ident c]\<rparr>,
                  out := out w @ [StatusLine ''FAILED'' (ident c)]\<rparr>), Inr res)
          | None \<Rightarrow>
              ((c\<lparr>status := Some ''NOT_APPLICABLE''\<rparr>,
                w\<lparr>reg := (reg w)\<lparr>not_applicable := not_applicable (reg w) @ [ident c]\<rparr>,
                  out := out w @ [StatusLine ''NOT_APPLICABLE'' (ident c)]\<rparr>), Inr res)))"

text \<open>
  \<^verbatim>\<open>confirm\<close>: one line is read; the empty line, \<^verbatim>\<open>yes\<close>, \<^verbatim>\<open>y\<close> and \<^verbatim>\<open>Y\<close>
  accept. An interrupt is raised again after the answer is printed.
\<close>

definition confirm :: "env \<Rightarrow> env \<times> (abort + bool)" where
  "confirm e =
     (case keyboard e of
        [] \<Rightarrow> (e, Inl (Raised EOFError))
      | CtrlC # ks \<Rightarrow> (e\<lparr>keyboard := ks\<rparr>, Inl KeyboardInterrupt)
      | Typed input_res # ks \<Rightarrow>
          (e\<lparr>keyboard := ks\<rparr>, Inr (input_res = [] \<or> input_res \<in> {''yes'', ''y'', ''Y''})))"

text \<open>
  The part of the loop body of \<^verbatim>\<open>Check.apply_solution\<close> under
  \<^verbatim>\<open>if retry > 0\<close>: \<open>Inr True\<close> when the body goes on to apply the solution,
  \<open>Inr False\<close> when the method returns.
\<close>

definition recheck_step :: "pylib \<Rightarrow> nat \<Rightarrow> Check \<Rightarrow> world \<Rightarrow> (Check \<times> world) \<times> (abort + bool)" where
  "recheck_step L retry c w =
     (case Check_check L c (w\<lparr>out := out w @ [Rechecking]\<rparr>) of
        (cw, Inl a) \<Rightarrow> (cw, Inl a)
      | ((c1, w1), Inr res) \<Rightarrow>
          if res = Some True then ((c1, w1), Inr False)
          else (case confirm (env w1) of
                  (e, Inl a) \<Rightarrow>
                    ((c1, w1\<lparr>env := e, out := out w1 @ [RecheckFailed retry]\<rparr>), Inl a)
                | (e, Inr yes) \<Rightarrow>
                    ((c1, w1\<lparr>env := e, out := out w1 @ [RecheckFailed retry]\<rparr>), Inr yes)))"

text \<open>The loop \<^verbatim>\<open>for retry in range(...)\<close>, over the values of \<^verbatim>\<open>retry\<close> left.\<close>

fun retry_loop :: "pylib \<Rightarrow> prims \<Rightarrow> nat list \<Rightarrow> Check \<Rightarrow> world \<Rightarrow> (Check \<times> world) \<times> abort option" where
  "retry_loop L P [] c w = ((c, w), None)"
| "retry_loop L P (retry # rest) c w =
     (if retry = 4 then ((c, w\<lparr>out := out w @ [MaxTries]\<rparr>), None)
      else
        (case (if retry > 0 then recheck_step L retry c w else ((c, w), Inr True)) of
           (cw, Inl a) \<Rightarrow> (cw, Some a)
         | (cw, Inr False) \<Rightarrow> (cw, None)
         | ((c1, w1), Inr True) \<Rightarrow>
            (case Solution_apply P (solution c1) (w1\<lparr>out := out w1 @ [ApplyStart]\<rparr>) of
               (w2, Some a) \<Rightarrow> ((c1, w2), Some a)
             | (w2, None) \<Rightarrow> retry_loop L P rest c1 (w2\<lparr>out := out w2 @ [ApplyEnd]\<rparr>))))"

definition apply_solution :: "pylib \<Rightarrow> prims \<Rightarrow> Check \<Rightarrow> world \<Rightarrow> (Check \<times> world) \<times> abort option" where
  "apply_solution L P c w =
     (case confirm (env w) of
        (e, Inl a) \<Rightarrow> ((c, w\<lparr>env := e\<rparr>), Some a)
      | (e, Inr False) \<Rightarrow> ((c, w\<lparr>env := e\<rparr>), None)
      | (e, Inr True) \<Rightarrow>
          retry_loop L P [0 ..< (if recheck (solution c) = Some True then 5 else 1)] c (w\<lparr>env := e\<rparr>))"

text \<open>
  Events an act writes, the number of times the solution was applied and the
  number of rechecks.
\<close>

fun is_call :: "event \<Rightarrow> bool" where
  "is_call (Called f args) = True"
| "is_call (Returned v) = True"
| "is_call e = False"

definition applies :: "event list \<Rightarrow> nat" where
  "applies evs = length (filter (\<lambda>e. e = ApplyStart) evs)"

definition rechecks :: "event list \<Rightarrow> nat" where
  "rechecks evs = length (filter (\<lambda>e. e = Rechecking) evs)"

section \<open>A sample library, host and solution for the examples\<close>

text \<open>
  The examples below run the program on concrete inputs. \<open>sample_findall\<close> and
  \<open>sample_int\<close> answer as \<^verbatim>\<open>re.findall(..., flags=re.I)\<close> and \<^verbatim>\<open>int\<close> do on
  the arguments the examples pass: a pattern of letters, digits, \<^verbatim>\<open>\.\<close> and
  \<^verbatim>\<open>.\<close> is read into its pieces (\<open>parse_frag\<close>) and the text is scanned for
  its matches from left to right (\<open>frag_scan\<close>); the other patterns of the
  examples are answered from a table.
\<close>

definition word_class :: string where
  "word_class = ''[A-Za-z0-9-@_]+''"

fun parse_frag :: "string \<Rightarrow> piece list option" where
  "parse_frag [] = Some []"
| "parse_frag (c # cs) =
     (if c = BSL \<and> startswith cs ''.'' then map_option (Cons Dot) (parse_frag (drop 1 cs))
      else if c = CHR ''.'' then map_option (Cons EscDot) (parse_frag cs)
      else if alnum c then map_option (Cons (Lit c)) (parse_frag cs)
      else None)"

fun frag_scan :: "piece list \<Rightarrow> string \<Rightarrow> re_match list" where
  "frag_scan ps [] = (if matches_here ps [] then [MStr []] else [])"
| "frag_scan ps (x # xs) =
     (if matches_here ps (x # xs)
      then MStr (take (length ps) (x # xs)) # frag_scan ps (drop (length ps - 1) xs)
      else frag_scan ps xs)"

definition sample_findall :: "string \<Rightarrow> string \<Rightarrow> exn + re_match list" where
  "sample_findall p s =
     (case parse_frag p of
        Some ps \<Rightarrow> Inr (frag_scan ps s)
      | None \<Rightarrow>
          if p = compare_regex \<and> s = ''n:'' @ word_class @ '' compare > 5''
            then Inr [MTuple [word_class, ''>'', ''5'']]
          else if p = word_class \<and> s = ''abc'' then Inr [MStr ''abc'']
          else if p = word_class \<and> s = ''7'' then Inr [MStr ''7'']
          else Inr [])"

definition sample_int :: "string \<Rightarrow> exn + int" where
  "sample_int s =
     (if s = ''5'' then Inr 5 else if s = ''7'' then Inr 7 else Inl ValueError)"

definition sample_lib :: pylib where
  "sample_lib = \<lparr>re_findall = sample_findall, int_str = sample_int\<rparr>"

text \<open>
  A machine with a directory \<^verbatim>\<open>/etc\<close> holding the file \<^verbatim>\<open>passwd\<close>, and the
  file \<^verbatim>\<open>/tmp/flag\<close> when \<open>flag\<close> is set; the process table cannot be
  read, and \<^verbatim>\<open>sleep 20\<close> runs into the timeout.
\<close>

definition sample_host :: "bool \<Rightarrow> host" where
  "sample_host flag =
     \<lparr>path_exists = (\<lambda>p. p = Path ''/etc'' \<or> p = Path ''/etc/passwd''
                            \<or> p = Child (Path ''/etc'') ''passwd''
                            \<or> (flag \<and> p = Path ''/tmp/flag'')),
      path_is_dir = (\<lambda>p. p = Path ''/etc''),
      path_is_file = (\<lambda>p. p = Path ''/etc/passwd'' \<or> p = Child (Path ''/etc'') ''passwd''
                            \<or> (flag \<and> p = Path ''/tmp/flag'')),
      read_file = (\<lambda>p. if p = Path ''/etc/passwd'' \<or> p = Child (Path ''/etc'') ''passwd''
                         then Inr ''root:x:0:0''
                         else if flag \<and> p = Path ''/tmp/flag'' then Inr []
                         else Inl FileNotFoundError),
      listdir = (\<lambda>p. if p = Path ''/etc'' then Inr [''passwd''] else Inl FileNotFoundError),
      popen = (\<lambda>cmd. if take 6 cmd = ''pgrep '' then Inl OSError
                       else if take 19 cmd = ''timeout 10 sleep 20'' then Inr (''BASH_TIMEOUT'' @ [NL])
                       else Inr [])\<rparr>"

text \<open>
  A registry in which \<^verbatim>\<open>execute\<close>, called with \<^verbatim>\<open>touch /tmp/flag\<close> and
  \<^verbatim>\<open>ask=False\<close>, creates the file and returns the empty output; every other
  call changes nothing and returns \<^verbatim>\<open>None\<close>.
\<close>

definition sample_prims :: prims where
  "sample_prims f args kw e =
     (if f = ''execute'' \<and> args = [PStr ''touch /tmp/flag''] \<and> kw = [(''ask'', PBool False)]
      then (e\<lparr>host := sample_host True\<rparr>, Inr (PStr []))
      else (e, Inr PNone))"

definition sample_check :: "act list \<Rightarrow> Check" where
  "sample_check as =
     \<lparr>ident = 7, title = ''flag file'',
      rules = Rules_init 7 ''all'' [''f:/tmp/flag''],
      solution = \<lparr>recheck = Some True, acts = Some as\<rparr>,
      status = None\<rparr>"

definition sample_world :: "key list \<Rightarrow> world" where
  "sample_world ks =
     \<lparr>env = \<lparr>host = sample_host False, keyboard = ks\<rparr>,
      reg = \<lparr>passed = [], failed = [], not_applicable = []\<rparr>,
      out = []\<rparr>"

text \<open>An act that creates the flag file.\<close>

definition fix_act :: act where
  "fix_act = Act ''execute'' [PStr ''touch /tmp/flag''] [(''ask'', PBool False)] []"

text \<open>
  A machine that counts: the file \<^verbatim>\<open>/tmp/runs\<close> holds one character for each
  run of the command below, and the file \<^verbatim>\<open>/tmp/flag\<close> is there from the
  fourth run on. The command appends a character to \<^verbatim>\<open>/tmp/runs\<close> and creates
  the flag file once there are four; \<open>slow_prims\<close> is a registry in which
  \<^verbatim>\<open>execute\<close> runs it.
\<close>

definition counting_host :: "nat \<Rightarrow> host" where
  "counting_host n =
     \<lparr>path_exists = (\<lambda>p. (0 < n \<and> p = Path ''/tmp/runs'') \<or> (4 \<le> n \<and> p = Path ''/tmp/flag'')),
      path_is_dir = (\<lambda>p. False),
      path_is_file = (\<lambda>p. (0 < n \<and> p = Path ''/tmp/runs'') \<or> (4 \<le> n \<and> p = Path ''/tmp/flag'')),
      read_file = (\<lambda>p. if 0 < n \<and> p = Path ''/tmp/runs'' then Inr (replicate n CHR ''x'')
                         else if 4 \<le> n \<and> p = Path ''/tmp/flag'' then Inr []
                         else Inl FileNotFoundError),
      listdir = (\<lambda>p. Inl FileNotFoundError),
      popen = (\<lambda>cmd. Inr [])\<rparr>"

definition slow_command :: string where
  "slow_command = ''printf x >> /tmp/runs; [ $(wc -c < /tmp/runs) -ge 4 ] && touch /tmp/flag''"

definition runs_so_far :: "host \<Rightarrow> nat" where
  "runs_so_far h = (case read_file h (Path ''/tmp/runs'') of Inl e \<Rightarrow> 0 | Inr s \<Rightarrow> length s)"

definition slow_prims :: prims where
  "slow_prims f args kw e =
     (if f = ''execute'' \<and> args = [PStr slow_command] \<and> kw = [(''ask'', PBool False)]
      then (e\<lparr>host := counting_host (Suc (runs_so_far (host e)))\<rparr>, Inr (PStr []))
      else (e, Inr PNone))"

definition slow_act :: act where
  "slow_act = Act ''execute'' [PStr slow_command] [(''ask'', PBool False)] []"

definition slow_world :: "key list \<Rightarrow> world" where
  "slow_world ks =
     \<lparr>env = \<lparr>host = counting_host 0, keyboard = ks\<rparr>,
      reg = \<lparr>passed = [], failed = [], not_applicable = []\<rparr>,
      out = []\<rparr>"

text \<open>
  A registry in which \<^verbatim>\<open>ask\<close> returns the string \<^verbatim>\<open>yes\<close> and every other
  function returns \<^verbatim>\<open>None\<close>, and an act with nested acts at two depths.
\<close>

definition answer_prims :: prims where
  "answer_prims f args kw e = (if f = ''ask'' then (e, Inr (PStr ''yes'')) else (e, Inr PNone))"

definition nested_act :: act where
  "nested_act =
     Act ''ask'' [] []
       [(PStr ''no'', [Act ''undo'' [] [] []]),
        (PStr ''yes'',
           [Act ''step'' [PInt 1] []
              [(PNone, [Act ''deep'' [] [] []]), (PStr ''yes'', [Act ''never'' [] [] []])],
            Act ''step'' [PInt 2] [] []]),
        (PStr ''Yes'', [Act ''other_case'' [] [] []]),
        (PStr ''yes'', [Act ''again'' [] [] []])]"

section \<open>The aggregator's truth tables\<close>

lemma all_loop_result:
  "fst (all_loop chk na rs) =
     (if Some False \<in> set (map chk rs) then Some False
      else if na \<or> None \<in> set (map chk rs) then None else Some True)"
  by (induction rs arbitrary: na) (auto simp: split_beta split: option.splits bool.splits)

lemma any_loop_result:
  "fst (any_loop chk na rs) =
     (if Some True \<in> set (map chk rs) then Some True
      else if na \<or> None \<in> set (map chk rs) then None else Some False)"
  by (induction rs arbitrary: na) (auto simp: split_beta split: option.splits bool.splits)

lemma none_loop_result:
  "fst (none_loop chk na rs) =
     (if Some True \<in> set (map chk rs) then Some False
      else if na \<or> None \<in> set (map chk rs) then None else Some True)"
  by (induction rs arbitrary: na) (auto simp: split_beta split: option.splits bool.splits)

text \<open>
  Claim C1. Whatever the rules answer, in order: under \<^verbatim>\<open>all\<close> the result is
  False if some outcome is False, else not applicable if some outcome is not
  applicable, else True; under \<^verbatim>\<open>any\<close> it is True if some outcome is True, else
  not applicable if some outcome is not applicable, else False; under
  \<^verbatim>\<open>none\<close> it is False if some outcome is True, else not applicable if some
  outcome is not applicable, else True.
\<close>

theorem C1_aggregate_tables:
  "map_sum id fst (aggregate chk ''all'' rs) =
     Inr (if Some False \<in> set (map chk rs) then Some False
          else if None \<in> set (map chk rs) then None else Some True)
   \<and> map_sum id fst (aggregate chk ''any'' rs) =
     Inr (if Some True \<in> set (map chk rs) then Some True
          else if None \<in> set (map chk rs) then None else Some False)
   \<and> map_sum id fst (aggregate chk ''none'' rs) =
     Inr (if Some True \<in> set (map chk rs) then Some False
          else if None \<in> set (map chk rs) then None else Some True)"
  by (simp add: aggregate_def all_loop_result any_loop_result none_loop_result)

text \<open>
  Claim C10. A check with no rules evaluates to True under \<^verbatim>\<open>all\<close>, to False
  under \<^verbatim>\<open>any\<close> and to True under \<^verbatim>\<open>none\<close>, never to not applicable; no rule
  is visited.
\<close>

theorem C10_empty_rule_list:
  "Rules_check L h (Rules_init cid ''all'' []) = Inr (Some True, [])
   \<and> Rules_check L h (Rules_init cid ''any'' []) = Inr (Some False, [])
   \<and> Rules_check L h (Rules_init cid ''none'' []) = Inr (Some True, [])"
  by (simp add: Rules_check_def Rules_init_def aggregate_def)

section \<open>Existence rules first\<close>

lemma sort_rules_eq:
  "sort_rules i rs ex nonex =
     (ex @ filter is_existence (map (Rule_init i) rs),
      nonex @ filter (\<lambda>r. \<not> is_existence r) (map (Rule_init i) rs))"
  by (induction rs arbitrary: ex nonex) (simp_all add: Let_def)

lemma parsed_rules_init:
  "parsed_rules (Rules_init i cond rs) =
     filter is_existence (map (Rule_init i) rs)
     @ filter (\<lambda>r. \<not> is_existence r) (map (Rule_init i) rs)"
  by (simp add: Rules_init_def sort_rules_eq)

lemma set_parsed_rules_init:
  "set (parsed_rules (Rules_init i cond rs)) = Rule_init i ` set rs"
  by (auto simp: parsed_rules_init)

lemma all_loop_seen: "take (length (snd (all_loop chk na rs))) rs = snd (all_loop chk na rs)"
  by (induction rs arbitrary: na) (auto simp: split_beta split: option.splits bool.splits)

lemma any_loop_seen: "take (length (snd (any_loop chk na rs))) rs = snd (any_loop chk na rs)"
  by (induction rs arbitrary: na) (auto simp: split_beta split: option.splits bool.splits)

lemma none_loop_seen: "take (length (snd (none_loop chk na rs))) rs = snd (none_loop chk na rs)"
  by (induction rs arbitrary: na) (auto simp: split_beta split: option.splits bool.splits)

lemma aggregate_seen:
  "(case aggregate chk cond rs of
      Inl e \<Rightarrow> True
    | Inr (res, seen) \<Rightarrow> take (length seen) rs = seen)"
  by (simp add: aggregate_def split_beta all_loop_seen any_loop_seen none_loop_seen)

text \<open>
  Claim C8. The rule list of a check is the rules parsed as FileExistence,
  DirExistence or DirContains, in their original order, followed by all other
  rules (the unparsed ones among them), in their original order; and the
  rules an evaluation visits are an initial segment of that list, in its
  order.
\<close>

theorem C8_existence_first:
  "parsed_rules (Rules_init i cond rs) =
     filter is_existence (map (Rule_init i) rs)
     @ filter (\<lambda>r. \<not> is_existence r) (map (Rule_init i) rs)
   \<and> (case Rules_check L h (Rules_init i cond rs) of
         Inl e \<Rightarrow> True
       | Inr (res, seen) \<Rightarrow> take (length seen) (parsed_rules (Rules_init i cond rs)) = seen)"
  using aggregate_seen[where chk = "Rule_check L h" and cond = cond
      and rs = "parsed_rules (Rules_init i cond rs)"]
  by (simp add: parsed_rules_init Rules_check_def Rules_init_def sort_rules_eq)

section \<open>Rules that do not parse, rules that fail to run\<close>

lemma py_split_nonempty: "py_split sep s \<noteq> []"
  by (induction s) (auto split: list.splits)

lemma py_split_cons:
  "\<not> startswith (a # s) sep \<Longrightarrow>
   py_split sep (a # s) = (a # hd (py_split sep s)) # tl (py_split sep s)"
  using py_split_nonempty[of sep s] by (auto split: list.splits)

lemma py_strip_keeps_prefix:
  assumes "pre \<noteq> []" and "\<not> isspace (hd pre)" and "\<not> isspace (last pre)"
  shows "\<exists>t. py_strip (pre @ w) = pre @ t"
proof -
  have "dropWhile isspace (rev pre) = rev pre"
    using assms by (cases "rev pre") (auto simp: hd_rev)
  then have "dropWhile isspace (rev w @ rev pre) = dropWhile isspace (rev w) @ rev pre
        \<or> dropWhile isspace (rev w @ rev pre) = rev pre"
    by (auto simp: dropWhile_append)
  then have "rev (dropWhile isspace (rev w @ rev pre)) = pre @ rev (dropWhile isspace (rev w))
        \<or> rev (dropWhile isspace (rev w @ rev pre)) = pre @ []"
    by auto
  moreover have "py_strip (pre @ w) = rev (dropWhile isspace (rev w @ rev pre))"
    using assms by (cases pre) (auto simp: py_strip_def)
  ultimately show ?thesis
    by metis
qed

lemma parse_r_selector: "parse (''r:'' @ s) = Inl ValueError"
proof -
  have sp: "py_split ''->'' (''r:'' @ s) = (''r:'' @ hd (py_split ''->'' s)) # tl (py_split ''->'' s)"
    by (simp add: py_split_cons startswith_def del: py_split.simps)
  obtain t where st: "py_strip (''r:'' @ hd (py_split ''->'' s)) = ''r:'' @ t"
    using py_strip_keeps_prefix[of "''r:''"] by (auto simp: isspace_def)
  show ?thesis
    using sp st by (simp add: parse_def startswith_def Let_def del: py_split.simps)
qed

lemma parse_not_r_selector: "parse (''not r:'' @ s) = Inl ValueError"
proof -
  have sp: "py_split ''->'' (''not r:'' @ s)
              = (''not r:'' @ hd (py_split ''->'' s)) # tl (py_split ''->'' s)"
    by (simp add: py_split_cons startswith_def del: py_split.simps)
  obtain t where st: "py_strip (''not r:'' @ hd (py_split ''->'' s)) = ''not r:'' @ t"
    using py_strip_keeps_prefix[of "''not r:''"] by (auto simp: isspace_def)
  show ?thesis
    using sp st by (simp add: parse_def startswith_def Let_def del: py_split.simps)
qed

lemma Rule_check_unparsed:
  "parse r = Inl e \<Longrightarrow> Rule_check L h (Rule_init i r) = Some True"
  by (simp add: Rule_check_def Rule_init_def)

lemma condition_init: "condition (Rules_init i cond rs) = cond"
  by (simp add: Rules_init_def split_beta)

lemma Rules_check_all:
  "condition R = ''all'' \<Longrightarrow>
   map_sum id fst (Rules_check L h R) =
     Inr (if Some False \<in> Rule_check L h ` set (parsed_rules R) then Some False
          else if None \<in> Rule_check L h ` set (parsed_rules R) then None else Some True)"
  by (simp add: Rules_check_def aggregate_def all_loop_result)

lemma all_unparsed_neutral:
  assumes "parse r = Inl e"
  shows "map_sum id fst (Rules_check L h (Rules_init i ''all'' (pre @ r # post)))
       = map_sum id fst (Rules_check L h (Rules_init i ''all'' (pre @ post)))"
proof -
  have "Rule_check L h ` set (parsed_rules (Rules_init i ''all'' (pre @ r # post)))
      = insert (Some True) (Rule_check L h ` set (parsed_rules (Rules_init i ''all'' (pre @ post))))"
    using Rule_check_unparsed[OF assms, of L h i]
    by (simp add: set_parsed_rules_init image_Un)
  then show ?thesis
    by (simp add: Rules_check_all condition_init)
qed

lemma Rules_check_any:
  "condition R = ''any'' \<Longrightarrow>
   map_sum id fst (Rules_check L h R) =
     Inr (if Some True \<in> Rule_check L h ` set (parsed_rules R) then Some True
          else if None \<in> Rule_check L h ` set (parsed_rules R) then None else Some False)"
  by (simp add: Rules_check_def aggregate_def any_loop_result)

lemma Rules_check_none:
  "condition R = ''none'' \<Longrightarrow>
   map_sum id fst (Rules_check L h R) =
     Inr (if Some True \<in> Rule_check L h ` set (parsed_rules R) then Some False
          else if None \<in> Rule_check L h ` set (parsed_rules R) then None else Some True)"
  by (simp add: Rules_check_def aggregate_def none_loop_result)

lemma unparsed_seen:
  assumes "parse r = Inl e"
  shows "Some True \<in> Rule_check L h ` set (parsed_rules (Rules_init i cond (pre @ r # post)))"
proof -
  have "Rule_init i r \<in> set (parsed_rules (Rules_init i cond (pre @ r # post)))"
    by (simp add: set_parsed_rules_init)
  then have "Rule_check L h (Rule_init i r)
      \<in> Rule_check L h ` set (parsed_rules (Rules_init i cond (pre @ r # post)))"
    by (rule imageI)
  then show ?thesis
    using Rule_check_unparsed[OF assms, of L h i] by simp
qed

lemma any_unparsed_decides:
  assumes "parse r = Inl e"
  shows "map_sum id fst (Rules_check L h (Rules_init i ''any'' (pre @ r # post))) = Inr (Some True)"
  using unparsed_seen[OF assms, of L h i "''any''" pre post]
  by (simp add: Rules_check_any condition_init)

lemma none_unparsed_decides:
  assumes "parse r = Inl e"
  shows "map_sum id fst (Rules_check L h (Rules_init i ''none'' (pre @ r # post))) = Inr (Some False)"
  using unparsed_seen[OF assms, of L h i "''none''" pre post]
  by (simp add: Rules_check_none condition_init)

text \<open>
  Claim C6, as amended. A rule string that does not parse (an unknown
  selector, a wrong number of patterns for its selector, or the selector
  \<^verbatim>\<open>r:\<close>, after \<^verbatim>\<open>not\<close> or without it) is kept in the rule list of its
  check with nothing parsed, and every evaluation of it returns True. The
  aggregation takes that True like any other outcome: under \<^verbatim>\<open>all\<close> the
  result is the same as without the rule, under \<^verbatim>\<open>any\<close> the result is True,
  and under \<^verbatim>\<open>none\<close> the result is False, whatever the other rules are. Rule
  strings that begin with \<^verbatim>\<open>r:\<close> or \<^verbatim>\<open>not r:\<close> never parse.
\<close>

theorem C6_unparsed_rule_passes:
  "(parse r = Inl e \<longrightarrow>
      parsed (Rule_init i r) = None
    \<and> Rule_init i r \<in> set (parsed_rules (Rules_init i cond (pre @ r # post)))
    \<and> Rule_check L h (Rule_init i r) = Some True
    \<and> map_sum id fst (Rules_check L h (Rules_init i ''all'' (pre @ r # post)))
        = map_sum id fst (Rules_check L h (Rules_init i ''all'' (pre @ post)))
    \<and> map_sum id fst (Rules_check L h (Rules_init i ''any'' (pre @ r # post))) = Inr (Some True)
    \<and> map_sum id fst (Rules_check L h (Rules_init i ''none'' (pre @ r # post)))
        = Inr (Some False))
   \<and> parse (''r:'' @ s) = Inl ValueError
   \<and> parse (''not r:'' @ s) = Inl ValueError"
proof -
  have "parsed (Rule_init i r) = None" if "parse r = Inl e"
    using that by (simp add: Rule_init_def)
  moreover have "Rule_init i r \<in> set (parsed_rules (Rules_init i cond (pre @ r # post)))"
    by (simp add: set_parsed_rules_init)
  ultimately show ?thesis
    using all_unparsed_neutral[of r e L h i pre post] Rule_check_unparsed[of r e L h i]
      any_unparsed_decides[of r e L h i pre post] none_unparsed_decides[of r e L h i pre post]
      parse_r_selector[of s] parse_not_r_selector[of s]
    by blast
qed

theorem C6_unparsed_rule_passes_witness:
  "parse ''x:/etc/passwd'' = Inl ValueError
   \<and> parse ''p:sshd -> r:foo'' = Inl ValueError
   \<and> parse ''not f:/a -> b -> c'' = Inl ValueError
   \<and> parsed (Rule_init 1 ''x:/etc/passwd'') = None
   \<and> Rule_check sample_lib (sample_host False) (Rule_init 1 ''x:/etc/passwd'') = Some True
   \<and> Rule_check sample_lib (sample_host False) (Rule_init 1 ''p:sshd -> r:foo'') = Some True
   \<and> Rule_check sample_lib (sample_host False) (Rule_init 1 ''not f:/a -> b -> c'') = Some True
   \<and> Rule_init 1 ''x:/etc/passwd''
        \<in> set (parsed_rules (Rules_init 1 ''all'' [''f:/etc/passwd'', ''x:/etc/passwd'']))
   \<and> map_sum id fst (Rules_check sample_lib (sample_host False)
          (Rules_init 1 ''any'' [''f:/tmp/flag'', ''x:/etc/passwd''])) = Inr (Some True)
   \<and> map_sum id fst (Rules_check sample_lib (sample_host False)
          (Rules_init 1 ''none'' [''f:/tmp/flag'', ''x:/etc/passwd''])) = Inr (Some False)"
proof -
  have a: "parse ''x:/etc/passwd'' = Inl ValueError"
    by (simp add: parse_def startswith_def py_strip_def isspace_def)
  have b: "parse ''p:sshd -> r:foo'' = Inl ValueError"
    by (simp add: parse_def startswith_def py_strip_def isspace_def)
  have c: "parse ''not f:/a -> b -> c'' = Inl ValueError"
    by (simp add: parse_def startswith_def py_strip_def isspace_def)
  show ?thesis
    using a b c
      C6_unparsed_rule_passes[of "''x:/etc/passwd''" ValueError 1 "''all''" "[''f:/etc/passwd'']" "[]"
        sample_lib "sample_host False" "[]"]
      C6_unparsed_rule_passes[of "''x:/etc/passwd''" ValueError 1 "''all''" "[''f:/tmp/flag'']" "[]"
        sample_lib "sample_host False" "[]"]
      C6_unparsed_rule_passes[of "''p:sshd -> r:foo''" ValueError 1 "''all''" "[]" "[]"
        sample_lib "sample_host False" "[]"]
      C6_unparsed_rule_passes[of "''not f:/a -> b -> c''" ValueError 1 "''all''" "[]" "[]"
        sample_lib "sample_host False" "[]"]
    by simp
qed

lemma flag_rule:
  "Rule_init i ''f:/tmp/flag'' =
     \<lparr>check_id = i, rule = ''f:/tmp/flag'',
      parsed = Some \<lparr>tag = FileExistence, func = Call_file_exists (Path ''/tmp/flag''),
                     revert = False\<rparr>\<rparr>"
  by (simp add: Rule_init_def parse_def startswith_def py_strip_def isspace_def)

lemma unparsed_rule:
  "Rule_init i ''x:/etc/passwd'' = \<lparr>check_id = i, rule = ''x:/etc/passwd'', parsed = None\<rparr>"
  by (simp add: Rule_init_def parse_def startswith_def py_strip_def isspace_def)

text \<open>
  The claim as stated fails under \<^verbatim>\<open>none\<close>. On a machine without the file
  \<^verbatim>\<open>/tmp/flag\<close>, the check with the one rule \<^verbatim>\<open>f:/tmp/flag\<close> evaluates to
  True; with the rule \<^verbatim>\<open>x:/etc/passwd\<close> added, which does not parse, it
  evaluates to False: the True of the unparsed rule decides the aggregation.
\<close>

theorem C6_counterexample:
  "parse ''x:/etc/passwd'' = Inl ValueError
   \<and> Rules_check sample_lib (sample_host False) (Rules_init 1 ''none'' [''f:/tmp/flag''])
       = Inr (Some True, [Rule_init 1 ''f:/tmp/flag''])
   \<and> Rules_check sample_lib (sample_host False)
         (Rules_init 1 ''none'' [''f:/tmp/flag'', ''x:/etc/passwd''])
       = Inr (Some False, [Rule_init 1 ''f:/tmp/flag'', Rule_init 1 ''x:/etc/passwd''])"
proof -
  have a: "parse ''x:/etc/passwd'' = Inl ValueError"
    by (simp add: parse_def startswith_def py_strip_def isspace_def)
  have b: "Rules_check sample_lib (sample_host False) (Rules_init 1 ''none'' [''f:/tmp/flag''])
       = Inr (Some True, [Rule_init 1 ''f:/tmp/flag''])"
    by (simp add: Rules_init_def is_existence_def flag_rule Rules_check_def aggregate_def
        Rule_check_def check_file_exists_def sample_host_def)
  have c: "Rules_check sample_lib (sample_host False)
         (Rules_init 1 ''none'' [''f:/tmp/flag'', ''x:/etc/passwd''])
       = Inr (Some False, [Rule_init 1 ''f:/tmp/flag'', Rule_init 1 ''x:/etc/passwd''])"
    by (simp add: Rules_init_def is_existence_def flag_rule unparsed_rule Rules_check_def
        aggregate_def Rule_check_def check_file_exists_def sample_host_def)
  from a b c show ?thesis by blast
qed

lemma Rule_check_parsed:
  "parsed r = Some p \<Longrightarrow>
   Rule_check L h r =
     (case run_call L h (func p) of
        Inl e \<Rightarrow> None
      | Inr b \<Rightarrow> Some (if revert p then \<not> b else b))"
  by (simp add: Rule_check_def split: sum.splits)

text \<open>
  Claim C7. When the predicate of a parsed rule raises, the rule's outcome is
  not applicable, whether the rule is negated or not; when it returns, a
  negated rule yields the opposite truth value and any other rule the value
  itself. The predicates raise when the path has the wrong type (a directory
  for a file, or the reverse), when the target of a content rule does not
  exist, when the command of a \<^verbatim>\<open>c:\<close> rule runs into the timeout, and when
  the shell of the process probe cannot be run.
\<close>

theorem C7_execution_error_not_applicable:
  "(parsed r = Some p \<longrightarrow>
      (\<forall>e. run_call L h (func p) = Inl e \<longrightarrow> Rule_check L h r = None)
    \<and> (\<forall>b. run_call L h (func p) = Inr b \<longrightarrow>
           Rule_check L h r = Some (if revert p then \<not> b else b)))
   \<and> (path_exists h pth \<and> path_is_dir h pth \<longrightarrow>
        run_call L h (Call_file_exists pth) = Inl IsADirectoryError
      \<and> run_call L h (Call_regex_against_file pth rx) = Inl IsADirectoryError)
   \<and> (path_exists h pth \<and> \<not> path_is_dir h pth \<longrightarrow>
        run_call L h (Call_dir_exists pth) = Inl NotADirectoryError
      \<and> run_call L h (Call_dir_contains pth fp) = Inl NotADirectoryError
      \<and> run_call L h (Call_regex_against_dir pth fp rx) = Inl NotADirectoryError)
   \<and> (\<not> path_exists h pth \<longrightarrow>
        run_call L h (Call_regex_against_file pth rx) = Inl FileNotFoundError
      \<and> run_call L h (Call_dir_contains pth fp) = Inl FileNotFoundError
      \<and> run_call L h (Call_regex_against_dir pth fp rx) = Inl FileNotFoundError)
   \<and> (\<forall>e. execute h cmd 10 = Inl e \<longrightarrow>
        run_call L h (Call_regex_against_command cmd rx) = Inl e)
   \<and> (\<forall>output. popen h (shell_line cmd 10) = Inr output
          \<and> endswith output (''BASH_TIMEOUT'' @ [NL]) \<longrightarrow>
        execute h cmd 10 = Inl TimeoutError)
   \<and> (\<forall>e. popen h (shell_line (pgrep_line name) 0) = Inl e \<longrightarrow>
        run_call L h (Call_process_exists name) = Inl e)"
  by (auto simp: Rule_check_parsed check_file_exists_def check_regex_against_file_def
      check_dir_exists_def check_dir_contains_def check_regex_against_dir_def
      check_regex_against_command_def check_process_exists_def execute_def)

theorem C7_execution_error_not_applicable_witness:
  "Rule_check sample_lib (sample_host False) (Rule_init 1 ''f:/etc'') = None
   \<and> Rule_check sample_lib (sample_host False) (Rule_init 1 ''not f:/etc'') = None
   \<and> Rule_check sample_lib (sample_host False) (Rule_init 1 ''f:/etc/passwd'') = Some True
   \<and> Rule_check sample_lib (sample_host False) (Rule_init 1 ''not f:/etc/passwd'') = Some False
   \<and> Rule_check sample_lib (sample_host False) (Rule_init 1 ''not f:/etc/shadow'') = Some True
   \<and> Rule_check sample_lib (sample_host False) (Rule_init 1 ''not f:/etc/shadow -> r:root'') = None
   \<and> Rule_check sample_lib (sample_host False) (Rule_init 1 ''d:/etc/passwd'') = None
   \<and> Rule_check sample_lib (sample_host False) (Rule_init 1 ''not c:sleep 20 -> r:done'') = None
   \<and> Rule_check sample_lib (sample_host False) (Rule_init 1 ''p:sshd'') = None"
proof -
  let ?L = sample_lib and ?h = "sample_host False"
  note ev = Rule_init_def parse_def startswith_def endswith_def py_strip_def isspace_def
    sample_host_def Regex_init_def translate_def
    check_file_exists_def check_regex_against_file_def check_dir_exists_def
    check_regex_against_command_def check_process_exists_def execute_def shell_line_def
    pgrep_line_def
  have 1: "parsed (Rule_init 1 ''f:/etc'') =
      Some \<lparr>tag = FileExistence, func = Call_file_exists (Path ''/etc''), revert = False\<rparr>"
    by (simp add: ev)
  have 2: "parsed (Rule_init 1 ''not f:/etc'') =
      Some \<lparr>tag = FileExistence, func = Call_file_exists (Path ''/etc''), revert = True\<rparr>"
    by (simp add: ev)
  have 3: "parsed (Rule_init 1 ''f:/etc/passwd'') =
      Some \<lparr>tag = FileExistence, func = Call_file_exists (Path ''/etc/passwd''), revert = False\<rparr>"
    by (simp add: ev)
  have 4: "parsed (Rule_init 1 ''not f:/etc/passwd'') =
      Some \<lparr>tag = FileExistence, func = Call_file_exists (Path ''/etc/passwd''), revert = True\<rparr>"
    by (simp add: ev)
  have 5: "parsed (Rule_init 1 ''not f:/etc/shadow'') =
      Some \<lparr>tag = FileExistence, func = Call_file_exists (Path ''/etc/shadow''), revert = True\<rparr>"
    by (simp add: ev)
  have 6: "parsed (Rule_init 1 ''not f:/etc/shadow -> r:root'') =
      Some \<lparr>tag = RegexAgainstFile,
        func = Call_regex_against_file (Path ''/etc/shadow'') (Regex_init ''r:root''),
        revert = True\<rparr>"
    by (simp add: ev)
  have 7: "parsed (Rule_init 1 ''d:/etc/passwd'') =
      Some \<lparr>tag = DirExistence, func = Call_dir_exists (Path ''/etc/passwd''), revert = False\<rparr>"
    by (simp add: ev)
  have 8: "parsed (Rule_init 1 ''not c:sleep 20 -> r:done'') =
      Some \<lparr>tag = RegexAgainstCommand,
        func = Call_regex_against_command ''sleep 20'' (Regex_init ''r:done''),
        revert = True\<rparr>"
    by (simp add: ev)
  have 9: "parsed (Rule_init 1 ''p:sshd'') =
      Some \<lparr>tag = CheckProcessExists, func = Call_process_exists ''sshd'', revert = False\<rparr>"
    by (simp add: ev)
  have t: "execute ?h ''sleep 20'' 10 = Inl TimeoutError"
    by (simp add: ev)
  show ?thesis
    using
      C7_execution_error_not_applicable[where L = ?L and h = ?h
        and r = "Rule_init 1 ''not f:/etc''" and pth = "Path ''/etc''"
        and cmd = "''sleep 20''" and name = "''sshd''", OF ]
      C7_execution_error_not_applicable[where L = ?L and h = ?h
        and r = "Rule_init 1 ''not f:/etc/passwd''" and pth = "Path ''/etc/passwd''"]
      C7_execution_error_not_applicable[where L = ?L and h = ?h
        and r = "Rule_init 1 ''not f:/etc/shadow -> r:root''" and pth = "Path ''/etc/shadow''"
        and rx = "Regex_init ''r:root''"]
    by (simp add: 1 2 3 4 5 6 7 8 9 t Rule_check_parsed check_file_exists_def
        check_regex_against_file_def check_dir_exists_def check_regex_against_command_def
        check_process_exists_def execute_def shell_line_def pgrep_line_def sample_host_def
        endswith_def)
qed

section \<open>The loops of \<^verbatim>\<open>Regex.check\<close>\<close>

lemma chains_loop_True:
  "(chains_loop L cs line = Inr True) = list_all (\<lambda>c. chain_holds L c line = Inr True) cs"
  by (induction cs) (auto split: sum.splits bool.splits)

lemma lines_loop_True:
  "(lines_loop L cs ls = Inr True) =
     (\<exists>pre l post. ls = pre @ l # post \<and> chains_loop L cs l = Inr True
        \<and> list_all (\<lambda>x. chains_loop L cs x = Inr False) pre)"
proof (induction ls)
  case Nil
  then show ?case by simp
next
  case (Cons a ls)
  have split: "(\<exists>pre l post. a # ls = pre @ l # post \<and> chains_loop L cs l = Inr True
        \<and> list_all (\<lambda>x. chains_loop L cs x = Inr False) pre)
     = (chains_loop L cs a = Inr True
        \<or> (chains_loop L cs a = Inr False
           \<and> (\<exists>pre l post. ls = pre @ l # post \<and> chains_loop L cs l = Inr True
              \<and> list_all (\<lambda>x. chains_loop L cs x = Inr False) pre)))"
    (is "?A = (?B \<or> (?C \<and> ?D))")
  proof
    assume ?A
    then obtain pre l post where h: "a # ls = pre @ l # post" "chains_loop L cs l = Inr True"
        "list_all (\<lambda>x. chains_loop L cs x = Inr False) pre"
      by blast
    show "?B \<or> (?C \<and> ?D)"
    proof (cases pre)
      case Nil
      with h show ?thesis by simp
    next
      case (Cons b pre')
      with h have "ls = pre' @ l # post" "chains_loop L cs a = Inr False"
          "list_all (\<lambda>x. chains_loop L cs x = Inr False) pre'"
        by simp_all
      with h(2) show ?thesis by blast
    qed
  next
    assume "?B \<or> (?C \<and> ?D)"
    then show ?A
    proof
      assume ?B
      then have "a # ls = [] @ a # ls \<and> chains_loop L cs a = Inr True
          \<and> list_all (\<lambda>x. chains_loop L cs x = Inr False) []"
        by simp
      then show ?A by blast
    next
      assume "?C \<and> ?D"
      then obtain pre l post where h: "ls = pre @ l # post" "chains_loop L cs l = Inr True"
          "list_all (\<lambda>x. chains_loop L cs x = Inr False) pre" and c: ?C
        by blast
      then have "a # ls = (a # pre) @ l # post \<and> chains_loop L cs l = Inr True
          \<and> list_all (\<lambda>x. chains_loop L cs x = Inr False) (a # pre)"
        by simp
      then show ?A by blast
    qed
  qed
  show ?case
    unfolding split using Cons.IH
    by (cases "chains_loop L cs a") (auto split: bool.splits)
qed


lemma chains_loop_total:
  "list_all (\<lambda>c. \<exists>b. chain_holds L c l = Inr b) cs \<Longrightarrow>
   chains_loop L cs l = Inr (list_all (\<lambda>c. chain_holds L c l = Inr True) cs)"
  by (induction cs) (auto split: sum.splits bool.splits)

lemma lines_loop_total:
  "list_all (\<lambda>l. list_all (\<lambda>c. \<exists>b. chain_holds L c l = Inr b) cs) ls \<Longrightarrow>
   lines_loop L cs ls = Inr (list_ex (\<lambda>l. list_all (\<lambda>c. chain_holds L c l = Inr True) cs) ls)"
  by (induction ls) (auto simp: chains_loop_total split: sum.splits bool.splits)


section \<open>The dots of a pattern\<close>

lemma star_head: "startswith (py_replace ''*'' ''*?'' cs) ''.'' = startswith cs ''.''"
  by (cases cs) (auto simp: startswith_def)

lemma mark_after_escape:
  "py_replace [BSL, CHR ''.''] ''REGEX_DOT'' (py_replace ''*'' ''*?'' p) = mark False p"
proof (induction p rule: retext.induct)
  case 1
  then show ?case by simp
next
  case (2 c cs)
  show ?case
  proof (cases "c = CHR ''*''")
    case True
    with 2 show ?thesis by (simp add: startswith_def)
  next
    case False
    show ?thesis
    proof (cases "c = BSL \<and> startswith cs ''.''")
      case True
      then obtain cs' where cs: "cs = CHR ''.'' # cs'"
        by (cases cs) (auto simp: startswith_def)
      with True 2(2) False show ?thesis
        by (simp add: startswith_def)
    next
      case nb: False
      have "\<not> startswith (c # py_replace ''*'' ''*?'' cs) [BSL, CHR ''.'']"
        using nb star_head[of cs] by (cases "py_replace ''*'' ''*?'' cs") (auto simp: startswith_def)
      with False nb 2(3,4) show ?thesis
        by (cases "c = CHR ''.''") (auto simp: startswith_def)
    qed
  qed
qed


lemma mark_after_dot:
  "py_replace ''.'' [BSL, CHR ''.''] (mark False p) = mark True p"
proof (induction p rule: retext.induct)
  case 1
  then show ?case by simp
next
  case (2 c cs)
  then show ?case
    by (cases "c = CHR ''*''"; cases "c = BSL \<and> startswith cs ''.''"; cases "c = CHR ''.''")
       (auto simp: startswith_def)
qed

lemma occurs_drop: "\<not> occurs t s \<Longrightarrow> \<not> occurs t (drop n s)"
proof (induction s arbitrary: n)
  case Nil
  then show ?case by simp
next
  case (Cons c cs)
  then show ?case by (cases n) auto
qed

lemma mark_prefix:
  "startswith (mark True cs) u \<Longrightarrow> set u \<inter> {CHR ''*'', CHR ''.'', BSL, CHR ''R''} = {} \<Longrightarrow>
   startswith cs u"
proof (induction u arbitrary: cs)
  case Nil
  then show ?case by (simp add: startswith_def)
next
  case (Cons a u)
  from Cons.prems obtain c cs' where cs: "cs = c # cs'"
    by (cases cs) (auto simp: startswith_def)
  from Cons.prems(2) have a: "a \<noteq> CHR ''*''" "a \<noteq> CHR ''.''" "a \<noteq> BSL" "a \<noteq> CHR ''R''"
    by auto
  from Cons.prems(1) cs a have c: "c = a" "startswith (mark True cs') u"
    by (auto simp: startswith_def split: if_splits)
  from Cons.IH[OF c(2)] Cons.prems(2) have "startswith cs' u"
    by auto
  with cs c show ?case
    by (simp add: startswith_def)
qed

lemma retext_after_placeholder:
  "\<not> occurs ''REGEX_DOT'' p \<Longrightarrow> py_replace ''REGEX_DOT'' ''.'' (mark True p) = retext p"
proof (induction p rule: retext.induct)
  case 1
  then show ?case by simp
next
  case (2 c cs)
  from 2(5) have nocc: "\<not> occurs ''REGEX_DOT'' cs" "\<not> occurs ''REGEX_DOT'' (drop 1 cs)"
      and here: "\<not> startswith (c # cs) ''REGEX_DOT''"
    using occurs_drop[of "''REGEX_DOT''" cs 1] by auto
  show ?case
  proof (cases "c = CHR ''*''")
    case True
    with 2(1) nocc show ?thesis by (simp add: startswith_def)
  next
    case False
    show ?thesis
    proof (cases "c = BSL \<and> startswith cs ''.''")
      case True
      with False 2(2) nocc show ?thesis
        by (simp add: startswith_def)
    next
      case nb: False
      show ?thesis
      proof (cases "c = CHR ''.''")
        case True
        with False nb 2(3) nocc show ?thesis
          by (simp add: startswith_def)
      next
        case nd: False
        have "\<not> startswith (c # mark True cs) ''REGEX_DOT''"
        proof
          assume st: "startswith (c # mark True cs) ''REGEX_DOT''"
          then have "c = CHR ''R''" "startswith (mark True cs) ''EGEX_DOT''"
            by (auto simp: startswith_def)
          with mark_prefix[of cs "''EGEX_DOT''"] have "startswith (c # cs) ''REGEX_DOT''"
            by (auto simp: startswith_def)
          with here show False by simp
        qed
        with False nb nd 2(4) nocc show ?thesis
          by auto
      qed
    qed
  qed
qed

lemma translate_retext:
  "\<not> occurs ''REGEX_DOT'' p \<Longrightarrow> translate p = classes (retext p)"
  using mark_after_escape[of p] mark_after_dot[of p] retext_after_placeholder[of p]
  by (simp add: translate_def classes_def)

lemma alnum_facts:
  assumes "alnum c"
  shows "\<not> isspace c" "c \<noteq> CHR ''&''" "c \<noteq> CHR ''*''" "c \<noteq> BSL" "c \<noteq> CHR ''.''"
    "c \<noteq> CHR ''_''"
  using assms by (auto simp: alnum_def isspace_def)

lemma occurs_set: "occurs t s \<Longrightarrow> set t \<subseteq> set s"
proof (induction s)
  case Nil
  then show ?case by simp
next
  case (Cons c cs)
  show ?case
  proof (cases "startswith (c # cs) t")
    case True
    then have "t = take (length t) (c # cs)" by (simp add: startswith_def)
    then have "set t \<subseteq> set (c # cs)" by (metis set_take_subset)
    then show ?thesis .
  next
    case False
    with Cons show ?thesis by auto
  qed
qed

lemma source_chars: "list_all simple ps \<Longrightarrow> x \<in> set (source_text ps) \<Longrightarrow>
    alnum x \<or> x = BSL \<or> x = CHR ''.''"
  by (induction ps rule: source_text.induct) auto

lemma regex_chars: "list_all simple ps \<Longrightarrow> x \<in> set (regex_text ps) \<Longrightarrow>
    alnum x \<or> x = BSL \<or> x = CHR ''.''"
  by (induction ps rule: source_text.induct) auto

lemma retext_source: "list_all simple ps \<Longrightarrow> retext (source_text ps) = regex_text ps"
  by (induction ps rule: source_text.induct) (auto simp: startswith_def dest: alnum_facts)

lemma classes_regex:
  "list_all simple ps \<Longrightarrow> x \<noteq> CHR ''.'' \<Longrightarrow>
   py_replace [BSL, x] new (regex_text ps) = regex_text ps"
  by (induction ps rule: source_text.induct) (auto simp: startswith_def dest: alnum_facts)

lemma translate_simple:
  assumes "list_all simple ps"
  shows "translate (''r:'' @ source_text ps) = ''r:'' @ regex_text ps"
proof -
  have "CHR ''_'' \<notin> set (''r:'' @ source_text ps)"
    using source_chars[OF assms, of "CHR ''_''"] alnum_facts(6)[of "CHR ''_''"] by auto
  then have "\<not> occurs ''REGEX_DOT'' (''r:'' @ source_text ps)"
    using occurs_set[of "''REGEX_DOT''" "''r:'' @ source_text ps"] by auto
  then have "translate (''r:'' @ source_text ps) = classes (retext (''r:'' @ source_text ps))"
    by (rule translate_retext)
  also have "retext (''r:'' @ source_text ps) = ''r:'' @ regex_text ps"
    using retext_source[OF assms] by (simp add: startswith_def)
  also have "classes (''r:'' @ regex_text ps) = ''r:'' @ regex_text ps"
    using classes_regex[OF assms] by (simp add: classes_def startswith_def)
  finally show ?thesis .
qed

lemma split_whole: "sep \<noteq> [] \<Longrightarrow> hd sep \<notin> set s \<Longrightarrow> py_split sep s = [s]"
  by (induction s) (auto simp: startswith_def hd_conv_nth take_Suc_conv_app_nth neq_Nil_conv)

lemma strip_whole: "\<forall>c\<in>set s. \<not> isspace c \<Longrightarrow> py_strip s = s"
proof -
  assume a: "\<forall>c\<in>set s. \<not> isspace c"
  then have "dropWhile isspace s = s"
    by (cases s) auto
  moreover have "dropWhile isspace (rev s) = rev s"
  proof (cases "rev s")
    case Nil
    then show ?thesis by simp
  next
    case (Cons x xs)
    then have "x \<in> set s" by (metis list.set_intros(1) set_rev)
    with a Cons show ?thesis by simp
  qed
  ultimately show ?thesis
    by (simp add: py_strip_def)
qed

lemma chains_simple:
  assumes "list_all simple ps"
  shows "chains (Regex_init (''r:'' @ source_text ps)) = [''r:'' @ regex_text ps]"
proof -
  have ch: "alnum x \<or> x = BSL \<or> x = CHR ''.'' \<or> x = CHR ''r'' \<or> x = CHR '':''"
    if "x \<in> set (''r:'' @ regex_text ps)" for x
    using that regex_chars[OF assms, of x] by auto
  have "CHR ''&'' \<notin> set (''r:'' @ regex_text ps)"
    using ch[of "CHR ''&''"] alnum_facts(2)[of "CHR ''&''"] by auto
  then have sp: "py_split ''&&'' (''r:'' @ regex_text ps) = [''r:'' @ regex_text ps]"
    using split_whole[of "''&&''" "''r:'' @ regex_text ps"] by simp
  have "\<forall>c\<in>set (''r:'' @ regex_text ps). \<not> isspace c"
  proof
    fix c assume "c \<in> set (''r:'' @ regex_text ps)"
    from ch[OF this] consider "alnum c" | "c = BSL" | "c = CHR ''.''" | "c = CHR ''r''"
      | "c = CHR '':''"
      by blast
    then show "\<not> isspace c"
      by cases (simp add: alnum_facts(1), simp_all add: isspace_def)
  qed
  then have st: "py_strip (''r:'' @ regex_text ps) = ''r:'' @ regex_text ps"
    by (rule strip_whole)
  show ?thesis
    using sp st translate_simple[OF assms] by (simp add: Regex_init_def del: py_split.simps)
qed

lemma check_simple:
  assumes ds: "dot_semantics L" and sm: "list_all simple ps"
  shows "Regex_check L (Regex_init (''r:'' @ source_text ps)) txt
       = Inr (list_ex (matches_somewhere ps) (py_split [NL] txt))"
proof -
  have ch: "chain_holds L (''r:'' @ regex_text ps) l = Inr (matches_somewhere ps l)" for l
  proof -
    from ds sm obtain ms where "re_findall L (regex_text ps) l = Inr ms" "(ms \<noteq> []) = matches_somewhere ps l"
      unfolding dot_semantics_def by blast
    then show ?thesis
      by (simp add: chain_holds_def startswith_def)
  qed
  have "lines_loop L [''r:'' @ regex_text ps] (py_split [NL] txt)
      = Inr (list_ex (\<lambda>l. list_all (\<lambda>c. chain_holds L c l = Inr True) [''r:'' @ regex_text ps])
               (py_split [NL] txt))"
    using ch by (intro lines_loop_total) (simp add: list_all_iff del: py_split.simps)
  then show ?thesis
    using chains_simple[OF sm] ch by (simp add: Regex_check_def del: py_split.simps)
qed

lemma parse_frag_regex: "list_all simple ps \<Longrightarrow> parse_frag (regex_text ps) = Some ps"
  by (induction ps rule: source_text.induct) (auto simp: startswith_def dest: alnum_facts)

lemma frag_scan_found: "(frag_scan ps s \<noteq> []) = matches_somewhere ps s"
  by (induction s) auto

lemma sample_dot_semantics: "dot_semantics sample_lib"
  by (simp add: dot_semantics_def sample_lib_def sample_findall_def parse_frag_regex
      frag_scan_found)

text \<open>
  Claim C2, as amended. The replacements of \<^verbatim>\<open>Regex.__init__\<close> exchange the
  two spellings of the dot: in every pattern that does not hold the text
  \<^verbatim>\<open>REGEX_DOT\<close>, each dot after a backslash is compiled to the bare \<^verbatim>\<open>.\<close>
  of \<^verbatim>\<open>re\<close>, each other dot to the escaped \<^verbatim>\<open>\.\<close>, each star to \<^verbatim>\<open>*?\<close>,
  and then the character classes are written out. So for an \<^verbatim>\<open>r:\<close> pattern
  of letters, digits and dots, the only chain is \<^verbatim>\<open>r:\<close> and the exchanged
  text, and with a regex library that reads \<^verbatim>\<open>\.\<close> as the dot and \<^verbatim>\<open>.\<close> as
  any character but the newline, the pattern matches a text exactly when on
  some line, at some position, every letter or digit of the pattern meets
  itself (in either case), every dot written as it is meets a dot, and every
  dot written after a backslash meets any character.
\<close>

theorem C2_dots_swap:
  "(\<not> occurs ''REGEX_DOT'' p \<longrightarrow> translate p = classes (retext p))
   \<and> (list_all simple ps \<longrightarrow>
        chains (Regex_init (''r:'' @ source_text ps)) = [''r:'' @ regex_text ps])
   \<and> (dot_semantics L \<and> list_all simple ps \<longrightarrow>
        Regex_check L (Regex_init (''r:'' @ source_text ps)) body
          = Inr (list_ex (matches_somewhere ps) (py_split [NL] body)))"
  using translate_retext[of p] chains_simple[of ps] check_simple[of L ps body]
  by blast

theorem C2_dots_swap_witness:
  "translate (''r:a*.b'' @ [BSL] @ ''.c'' @ [BSL] @ ''s'') = ''r:a*?'' @ [BSL] @ ''.b.c[ ]''
   \<and> chains (Regex_init ''r:a.b'') = [''r:a'' @ [BSL] @ ''.b'']
   \<and> Regex_check sample_lib (Regex_init ''r:a.b'') ''xA.by'' = Inr True
   \<and> Regex_check sample_lib (Regex_init ''r:a.b'') ''axb'' = Inr False
   \<and> Regex_check sample_lib (Regex_init (''r:a'' @ [BSL] @ ''.b'')) ''a.b'' = Inr True
   \<and> Regex_check sample_lib (Regex_init (''r:a'' @ [BSL] @ ''.b'')) ''axb'' = Inr True"
proof -
  note a = C2_dots_swap[where p = "''r:a*.b'' @ [BSL] @ ''.c'' @ [BSL] @ ''s''"
      and ps = "[Lit CHR ''a'', Dot, Lit CHR ''b'']" and L = sample_lib and body = "''xA.by''"]
  note b = C2_dots_swap[where ps = "[Lit CHR ''a'', Dot, Lit CHR ''b'']" and L = sample_lib
      and body = "''axb''"]
  note c = C2_dots_swap[where ps = "[Lit CHR ''a'', EscDot, Lit CHR ''b'']" and L = sample_lib
      and body = "''a.b''"]
  note d = C2_dots_swap[where ps = "[Lit CHR ''a'', EscDot, Lit CHR ''b'']" and L = sample_lib
      and body = "''axb''"]
  have 1: "translate (''r:a*.b'' @ [BSL] @ ''.c'' @ [BSL] @ ''s'') = ''r:a*?'' @ [BSL] @ ''.b.c[ ]''"
    using a[THEN conjunct1] by (simp add: startswith_def classes_def)
  have 2: "chains (Regex_init ''r:a.b'') = [''r:a'' @ [BSL] @ ''.b'']"
    using a[THEN conjunct2, THEN conjunct1] by (simp add: alnum_def)
  have 3: "Regex_check sample_lib (Regex_init ''r:a.b'') ''xA.by'' = Inr True"
    using a[THEN conjunct2, THEN conjunct2] sample_dot_semantics
    by (simp add: alnum_def lower_def startswith_def)
  have 4: "Regex_check sample_lib (Regex_init ''r:a.b'') ''axb'' = Inr False"
    using b[THEN conjunct2, THEN conjunct2] sample_dot_semantics
    by (simp add: alnum_def lower_def startswith_def)
  have 5: "Regex_check sample_lib (Regex_init (''r:a'' @ [BSL] @ ''.b'')) ''a.b'' = Inr True"
    using c[THEN conjunct2, THEN conjunct2] sample_dot_semantics
    by (simp add: alnum_def lower_def startswith_def)
  have 6: "Regex_check sample_lib (Regex_init (''r:a'' @ [BSL] @ ''.b'')) ''axb'' = Inr True"
    using d[THEN conjunct2, THEN conjunct2] sample_dot_semantics
    by (simp add: alnum_def lower_def startswith_def)
  from 1 2 3 4 5 6 show ?thesis by blast
qed

lemma chains_escaped_dot: "chains (Regex_init (''r:a'' @ [BSL] @ ''.b'')) = [''r:a.b'']"
  by (simp add: Regex_init_def translate_def startswith_def py_strip_def isspace_def)

text \<open>
  The claim as stated fails on the pattern \<^verbatim>\<open>r:a\.b\<close>: its chain is
  \<^verbatim>\<open>r:a.b\<close>, with a bare dot, and it matches the text \<^verbatim>\<open>axb\<close>, which has no
  dot in it.
\<close>

theorem C2_counterexample:
  "chains (Regex_init (''r:a'' @ [BSL] @ ''.b'')) = [''r:a.b'']
   \<and> Regex_check sample_lib (Regex_init (''r:a'' @ [BSL] @ ''.b'')) ''axb'' = Inr True"
  using chains_escaped_dot
  by (simp add: Regex_check_def chain_holds_def sample_lib_def sample_findall_def startswith_def
      alnum_def lower_def)

text \<open>
  A chain without a prefix is compared with the line as it stands after the
  replacements: the pattern \<^verbatim>\<open>a.b\<close> has the chain \<^verbatim>\<open>a\.b\<close> and does not
  match the line \<^verbatim>\<open>a.b\<close>.
\<close>

lemma plain_chain_dot:
  "chains (Regex_init ''a.b'') = [''a'' @ [BSL] @ ''.b'']
   \<and> Regex_check L (Regex_init ''a.b'') ''a.b'' = Inr False"
proof -
  have "chains (Regex_init ''a.b'') = [''a'' @ [BSL] @ ''.b'']"
    by (simp add: Regex_init_def translate_def startswith_def py_strip_def isspace_def)
  then show ?thesis
    by (simp add: Regex_check_def chain_holds_def startswith_def)
qed


section \<open>Matching a text\<close>

lemma literal_chain:
  "\<not> startswith c ''r:'' \<Longrightarrow> \<not> startswith c ''!r:'' \<Longrightarrow> \<not> startswith c ''n:'' \<Longrightarrow>
   chain_holds L c l = Inr (c = l)"
  by (simp add: chain_holds_def)

lemma chains_abc: "chains (Regex_init ''abc'') = [''abc'']"
  by (simp add: Regex_init_def translate_def startswith_def py_strip_def isspace_def)

lemma check_abc:
  "Regex_check L (Regex_init ''abc'') txt = Inr (''abc'' \<in> set (py_split [NL] txt))"
proof -
  have "chain_holds L ''abc'' l = Inr (''abc'' = l)" for l
    by (simp add: chain_holds_def startswith_def)
  then show ?thesis
    using lines_loop_total[of L "[''abc'']" "py_split [NL] txt"]
    by (simp add: Regex_check_def chains_abc list_all_iff list_ex_iff del: py_split.simps)
qed


text \<open>
  What \<^verbatim>\<open>Regex.check\<close> returns in general. It returns True exactly when some
  line of the text (the text split at newlines) satisfies every chain and
  every earlier line is turned down without an error; when no chain raises on
  any line, it returns whether some line satisfies every chain; and it ends
  with an error exactly when a chain raises on some line before which every
  line is turned down. A chain that does not start with \<^verbatim>\<open>r:\<close>, \<^verbatim>\<open>!r:\<close> or
  \<^verbatim>\<open>n:\<close> holds on a line exactly when the chain equals the whole line; so the
  pattern \<^verbatim>\<open>abc\<close> matches a text exactly when one of its lines is \<^verbatim>\<open>abc\<close>.
\<close>

lemma lines_loop_raises:
  "(lines_loop L cs ls = Inl e) =
     (\<exists>pre l post. ls = pre @ l # post \<and> chains_loop L cs l = Inl e
        \<and> list_all (\<lambda>x. chains_loop L cs x = Inr False) pre)"
proof (induction ls)
  case Nil
  then show ?case by simp
next
  case (Cons a ls)
  have split: "(\<exists>pre l post. a # ls = pre @ l # post \<and> chains_loop L cs l = Inl e
        \<and> list_all (\<lambda>x. chains_loop L cs x = Inr False) pre)
     = (chains_loop L cs a = Inl e
        \<or> (chains_loop L cs a = Inr False
           \<and> (\<exists>pre l post. ls = pre @ l # post \<and> chains_loop L cs l = Inl e
              \<and> list_all (\<lambda>x. chains_loop L cs x = Inr False) pre)))"
    (is "?A = (?B \<or> (?C \<and> ?D))")
  proof
    assume ?A
    then obtain pre l post where h: "a # ls = pre @ l # post" "chains_loop L cs l = Inl e"
        "list_all (\<lambda>x. chains_loop L cs x = Inr False) pre"
      by blast
    show "?B \<or> (?C \<and> ?D)"
    proof (cases pre)
      case Nil
      with h show ?thesis by simp
    next
      case (Cons b pre')
      with h have "ls = pre' @ l # post" "chains_loop L cs a = Inr False"
          "list_all (\<lambda>x. chains_loop L cs x = Inr False) pre'"
        by simp_all
      with h(2) show ?thesis by blast
    qed
  next
    assume "?B \<or> (?C \<and> ?D)"
    then show ?A
    proof
      assume ?B
      then have "a # ls = [] @ a # ls \<and> chains_loop L cs a = Inl e
          \<and> list_all (\<lambda>x. chains_loop L cs x = Inr False) []"
        by simp
      then show ?A by blast
    next
      assume "?C \<and> ?D"
      then obtain pre l post where h: "ls = pre @ l # post" "chains_loop L cs l = Inl e"
          "list_all (\<lambda>x. chains_loop L cs x = Inr False) pre" and c: ?C
        by blast
      then have "a # ls = (a # pre) @ l # post \<and> chains_loop L cs l = Inl e
          \<and> list_all (\<lambda>x. chains_loop L cs x = Inr False) (a # pre)"
        by simp
      then show ?A by blast
    qed
  qed
  show ?case
    unfolding split using Cons.IH
    by (cases "chains_loop L cs a") (auto split: bool.splits)
qed

lemma Regex_check_lines:
  "(Regex_check L R txt = Inr True) =
     (\<exists>pre l post. py_split [NL] txt = pre @ l # post
        \<and> list_all (\<lambda>c. chain_holds L c l = Inr True) (chains R)
        \<and> list_all (\<lambda>x. chains_loop L (chains R) x = Inr False) pre)
   \<and> (Regex_check L R txt = Inl e) =
     (\<exists>pre l post. py_split [NL] txt = pre @ l # post
        \<and> chains_loop L (chains R) l = Inl e
        \<and> list_all (\<lambda>x. chains_loop L (chains R) x = Inr False) pre)
   \<and> (list_all (\<lambda>l. list_all (\<lambda>c. \<exists>b. chain_holds L c l = Inr b) (chains R))
         (py_split [NL] txt) \<longrightarrow>
       Regex_check L R txt =
         Inr (list_ex (\<lambda>l. list_all (\<lambda>c. chain_holds L c l = Inr True) (chains R))
                (py_split [NL] txt)))
   \<and> (\<not> startswith c ''r:'' \<and> \<not> startswith c ''!r:'' \<and> \<not> startswith c ''n:'' \<longrightarrow>
       chain_holds L c l = Inr (c = l))
   \<and> Regex_check L (Regex_init ''abc'') txt' = Inr (''abc'' \<in> set (py_split [NL] txt'))"
  using lines_loop_total[of L "chains R" "py_split [NL] txt"] literal_chain[of c L l]
  by (simp add: Regex_check_def lines_loop_True lines_loop_raises chains_loop_True
      check_abc[unfolded Regex_check_def] del: py_split.simps)

lemma Regex_check_abc:
  "Regex_check L (Regex_init ''abc'') (''x'' @ [NL] @ ''abc'') = Inr True
   \<and> Regex_check L (Regex_init ''abc'') ''xabc'' = Inr False
   \<and> Regex_check L (Regex_init ''abc'') ''abcx'' = Inr False"
  by (simp add: check_abc startswith_def)

lemma chains_n: "chains (Regex_init (''n:'' @ [BSL] @ ''w+ compare > 5''))
    = [''n:[A-Za-z0-9-@_]+ compare > 5'']"
  by (simp add: Regex_init_def translate_def startswith_def py_strip_def isspace_def)


text \<open>
  Claim C5 on a run of the program. The pattern is \<^verbatim>\<open>n:\w+ compare > 5\<close> and
  the text has the two lines \<^verbatim>\<open>abc\<close> and \<^verbatim>\<open>7\<close>. The second line satisfies
  the only chain of the pattern, so by the claim the text matches, and
  \<^verbatim>\<open>Regex.check\<close> is documented to return True or False. On the first line
  \<^verbatim>\<open>int('abc')\<close> raises, and the call ends with that \<^verbatim>\<open>ValueError\<close> and
  returns nothing.
\<close>

theorem C5_check_raises:
  "chains (Regex_init (''n:'' @ [BSL] @ ''w+ compare > 5'')) = [''n:[A-Za-z0-9-@_]+ compare > 5'']
   \<and> py_split [NL] (''abc'' @ [NL] @ ''7'') = [''abc'', ''7'']
   \<and> chain_holds sample_lib ''n:[A-Za-z0-9-@_]+ compare > 5'' ''7'' = Inr True
   \<and> chain_holds sample_lib ''n:[A-Za-z0-9-@_]+ compare > 5'' ''abc'' = Inl ValueError
   \<and> Regex_check sample_lib (Regex_init (''n:'' @ [BSL] @ ''w+ compare > 5''))
         (''abc'' @ [NL] @ ''7'') = Inl ValueError"
proof -
  have a: "chain_holds sample_lib ''n:[A-Za-z0-9-@_]+ compare > 5'' ''7'' = Inr True"
    by (simp add: chain_holds_def startswith_def sample_lib_def sample_findall_def word_class_def
        compare_regex_def alnum_def unpack3_def ops_def int_match_def sample_int_def)
  have b: "chain_holds sample_lib ''n:[A-Za-z0-9-@_]+ compare > 5'' ''abc'' = Inl ValueError"
    by (simp add: chain_holds_def startswith_def sample_lib_def sample_findall_def word_class_def
        compare_regex_def alnum_def unpack3_def ops_def int_match_def sample_int_def)
  show ?thesis
    using chains_n a b by (simp add: Regex_check_def startswith_def)
qed


section \<open>The action tree\<close>

lemma SolutionActs_apply_append:
  "SolutionActs_apply P (xs @ ys) w =
     (case SolutionActs_apply P xs w of
        (w', Some a) \<Rightarrow> (w', Some a)
      | (w', None) \<Rightarrow> SolutionActs_apply P ys w')"
  by (induction xs arbitrary: w) (auto split: prod.splits option.splits)

lemma responses_loop_filter:
  "responses_loop P resp on_response w =
     SolutionActs_apply P (concat (map snd (filter (\<lambda>(v, nested). py_eq resp v) on_response))) w"
  by (induction on_response arbitrary: w)
     (auto simp: SolutionActs_apply_append split: prod.splits option.splits)

lemma py_eq_str: "py_eq (PStr s) r = (r = PStr s)" "py_eq r (PStr s) = (r = PStr s)"
  by (cases r; auto)+

lemma acts_out:
  "\<exists>evs. out (fst (SolutionAct_apply P a w)) = out w @ evs \<and> list_all is_call evs"
  "\<exists>evs. out (fst (responses_loop P resp rs w)) = out w @ evs \<and> list_all is_call evs"
  "\<exists>evs. out (fst (SolutionActs_apply P as w)) = out w @ evs \<and> list_all is_call evs"
proof (induction P a w and P resp rs w and P as w
    rule: SolutionAct_apply_responses_loop_SolutionActs_apply.induct)
  case (1 P f args kw on_response w)
  show ?case
  proof (cases "P f args kw (env w)")
    case (Pair e res)
    show ?thesis
    proof (cases res)
      case (Inl a)
      with Pair show ?thesis by simp
    next
      case (Inr v)
      with Pair 1[of e res v] obtain evs where
        "out (fst (responses_loop P v on_response (w\<lparr>env := e, out := out w @ [Called f args, Returned v]\<rparr>)))
           = (out w @ [Called f args, Returned v]) @ evs" "list_all is_call evs"
        by auto
      with Pair Inr show ?thesis by simp
    qed
  qed
next
  case (2 P resp w)
  then show ?case by simp
next
  case (3 P resp v nested rest w)
  show ?case
  proof (cases "py_eq resp v")
    case False
    with 3 show ?thesis by simp
  next
    case True
    obtain w' r where ap: "SolutionActs_apply P nested w = (w', r)"
      by (cases "SolutionActs_apply P nested w")
    from 3(1)[OF True] ap obtain evs where e1: "out w' = out w @ evs" "list_all is_call evs"
      by auto
    show ?thesis
    proof (cases r)
      case (Some a)
      with True ap e1 show ?thesis by simp
    next
      case None
      from 3(2)[OF True, of w' r] ap None obtain evs' where
        "out (fst (responses_loop P resp rest w')) = out w' @ evs'" "list_all is_call evs'"
        by auto
      with True ap None e1 show ?thesis by simp
    qed
  qed
next
  case (4 P w)
  then show ?case by simp
next
  case (5 P action rest w)
  obtain w' r where ap: "SolutionAct_apply P action w = (w', r)"
    by (cases "SolutionAct_apply P action w")
  from 5(1) ap obtain evs where e1: "out w' = out w @ evs" "list_all is_call evs"
    by auto
  show ?case
  proof (cases r)
    case (Some a)
    with ap e1 show ?thesis by simp
  next
    case None
    from 5(2)[of w' r] ap None obtain evs' where
      "out (fst (SolutionActs_apply P rest w')) = out w' @ evs'" "list_all is_call evs'"
      by auto
    with ap None e1 show ?thesis by simp
  qed
qed

lemma responses_loop_skip:
  "list_all (\<lambda>(v, nested). \<not> py_eq resp v) pre \<Longrightarrow>
   responses_loop P resp (pre @ rest) w = responses_loop P resp rest w"
  by (induction pre) auto

lemma no_response:
  assumes "P f args kw (env w) = (e, Inr resp)"
    and "list_all (\<lambda>(v, nested). \<not> py_eq resp v) on_response"
  shows "SolutionAct_apply P (Act f args kw on_response) w
       = (w\<lparr>env := e, out := out w @ [Called f args, Returned resp]\<rparr>, None)"
  using assms responses_loop_skip[of resp on_response P "[]"] by simp

lemma nested_first_called:
  assumes call: "P f args kw (env w) = (e, Inr resp)"
    and shape: "on_response = pre @ (v, Act g gargs gkw gresp # others) # post"
    and skip: "list_all (\<lambda>(v', nested). \<not> py_eq resp v') pre"
    and eq: "py_eq resp v"
  shows "\<exists>evs. out (fst (SolutionAct_apply P (Act f args kw on_response) w))
           = out w @ [Called f args, Returned resp, Called g gargs] @ evs"
proof -
  let ?w1 = "w\<lparr>env := e, out := out w @ [Called f args, Returned resp]\<rparr>"
  have o1: "out ?w1 = out w @ [Called f args, Returned resp]" "env ?w1 = e"
    by simp_all
  obtain e2 r2 where c2: "P g gargs gkw e = (e2, r2)"
    by (metis prod.exhaust)
  have "\<exists>evs. out (fst (SolutionAct_apply P (Act g gargs gkw gresp) ?w1))
      = out ?w1 @ [Called g gargs] @ evs"
  proof (cases r2)
    case (Inl a)
    with c2 show ?thesis by simp
  next
    case (Inr v2)
    from acts_out(2)[of P v2 gresp "?w1\<lparr>env := e2, out := out ?w1 @ [Called g gargs, Returned v2]\<rparr>"]
    obtain evs where "out (fst (responses_loop P v2 gresp
          (?w1\<lparr>env := e2, out := out ?w1 @ [Called g gargs, Returned v2]\<rparr>)))
        = (out ?w1 @ [Called g gargs, Returned v2]) @ evs"
      by auto
    with c2 Inr show ?thesis by simp
  qed
  then obtain evs1 where a1: "out (fst (SolutionAct_apply P (Act g gargs gkw gresp) ?w1))
      = out ?w1 @ [Called g gargs] @ evs1"
    by blast
  obtain wa ra where ra: "SolutionAct_apply P (Act g gargs gkw gresp) ?w1 = (wa, ra)"
    by (metis prod.exhaust)
  obtain wb rb where rb: "SolutionActs_apply P (Act g gargs gkw gresp # others) ?w1 = (wb, rb)"
    by (metis prod.exhaust)
  have "\<exists>evs. out wb = out wa @ evs"
  proof (cases ra)
    case (Some a)
    with ra rb show ?thesis by auto
  next
    case None
    with ra rb acts_out(3)[of P others wa] show ?thesis by auto
  qed
  then obtain evs2 where a2: "out wb = out wa @ evs2" by blast
  obtain wc rc where rc: "responses_loop P resp ((v, Act g gargs gkw gresp # others) # post) ?w1 = (wc, rc)"
    by (metis prod.exhaust)
  have "\<exists>evs. out wc = out wb @ evs"
  proof (cases rb)
    case (Some a)
    with rb rc eq show ?thesis by auto
  next
    case None
    with rb rc eq acts_out(2)[of P resp post wb] show ?thesis by auto
  qed
  then obtain evs3 where a3: "out wc = out wb @ evs3" by blast
  have "SolutionAct_apply P (Act f args kw on_response) w = (wc, rc)"
    using call shape responses_loop_skip[OF skip] rc by simp
  with a1 a2 a3 ra show ?thesis
    by simp
qed

text \<open>
  Claim C9. When an act runs, its function is called, and when the function
  returns, the nested sequences that run are those of the entries of
  \<^verbatim>\<open>on_response\<close> whose declared value is equal to the returned value
  (Python's \<^verbatim>\<open>==\<close>; for a declared string such as \<^verbatim>\<open>yes\<close>, the same string
  and nothing else), in the order of the entries, and they run as the
  top-level executor \<^verbatim>\<open>SolutionActs.apply\<close> runs a sequence, which runs its
  acts one after the other, at every depth of the tree. When the function
  raises, no nested sequence runs; when no declared value is equal to the
  returned value, the act ends after the call and nothing else is called;
  and when the first entry with an equal value has a nested sequence, the
  first act of that sequence is called right after the function has returned.
\<close>

theorem C9_on_response:
  "SolutionAct_apply P (Act f args kw on_response) w =
     (case P f args kw (env w) of
        (e, Inl a) \<Rightarrow> (w\<lparr>env := e, out := out w @ [Called f args]\<rparr>, Some a)
      | (e, Inr resp) \<Rightarrow>
          SolutionActs_apply P
            (concat (map snd (filter (\<lambda>(v, nested). py_eq resp v) on_response)))
            (w\<lparr>env := e, out := out w @ [Called f args, Returned resp]\<rparr>))
   \<and> py_eq resp (PStr s) = (resp = PStr s)
   \<and> SolutionActs_apply P [] w = (w, None)
   \<and> SolutionActs_apply P (action # rest) w =
       (case SolutionAct_apply P action w of
          (w', Some x) \<Rightarrow> (w', Some x)
        | (w', None) \<Rightarrow> SolutionActs_apply P rest w')
   \<and> (P f args kw (env w) = (e', Inr resp')
        \<and> list_all (\<lambda>(v, nested). \<not> py_eq resp' v) on_response \<longrightarrow>
      SolutionAct_apply P (Act f args kw on_response) w
        = (w\<lparr>env := e', out := out w @ [Called f args, Returned resp']\<rparr>, None))
   \<and> (P f args kw (env w) = (e', Inr resp')
        \<and> on_response = pre @ (v, Act g gargs gkw gresp # others) # post
        \<and> list_all (\<lambda>(v', nested). \<not> py_eq resp' v') pre \<and> py_eq resp' v \<longrightarrow>
      (\<exists>evs. out (fst (SolutionAct_apply P (Act f args kw on_response) w))
           = out w @ [Called f args, Returned resp', Called g gargs] @ evs))"
proof -
  have 1: "SolutionAct_apply P (Act f args kw on_response) w =
     (case P f args kw (env w) of
        (e, Inl a) \<Rightarrow> (w\<lparr>env := e, out := out w @ [Called f args]\<rparr>, Some a)
      | (e, Inr resp) \<Rightarrow>
          SolutionActs_apply P
            (concat (map snd (filter (\<lambda>(v, nested). py_eq resp v) on_response)))
            (w\<lparr>env := e, out := out w @ [Called f args, Returned resp]\<rparr>))"
    by (simp add: responses_loop_filter split: prod.splits sum.splits)
  have 2: "py_eq resp (PStr s) = (resp = PStr s)"
    by (simp add: py_eq_str)
  have 3: "SolutionActs_apply P [] w = (w, None)"
    by simp
  have 4: "SolutionActs_apply P (action # rest) w =
       (case SolutionAct_apply P action w of
          (w', Some x) \<Rightarrow> (w', Some x)
        | (w', None) \<Rightarrow> SolutionActs_apply P rest w')"
    by simp
  from 1 2 3 4 no_response[of P f args kw w e' resp' on_response]
    nested_first_called[of P f args kw w e' resp' on_response pre v g gargs gkw gresp others post]
  show ?thesis
    by blast
qed

theorem C9_on_response_witness:
  "SolutionAct_apply answer_prims nested_act (sample_world []) =
     ((sample_world [])\<lparr>out :=
        [Called ''ask'' [], Returned (PStr ''yes''),
         Called ''step'' [PInt 1], Returned PNone,
         Called ''deep'' [], Returned PNone,
         Called ''step'' [PInt 2], Returned PNone,
         Called ''again'' [], Returned PNone]\<rparr>, None)
   \<and> SolutionAct_apply answer_prims (Act ''ask'' [] [] [(PStr ''no'', [Act ''undo'' [] [] []])])
        (sample_world []) =
     ((sample_world [])\<lparr>out := [Called ''ask'' [], Returned (PStr ''yes'')]\<rparr>, None)"
proof -
  let ?w = "sample_world []"
  note top = C9_on_response[where P = answer_prims and f = "''ask''" and args = "[]" and kw = "[]"
      and w = ?w and e' = "env ?w" and resp' = "PStr ''yes''"]
  have shape: "nested_act = Act ''ask'' [] []
       [(PStr ''no'', [Act ''undo'' [] [] []]),
        (PStr ''yes'',
           [Act ''step'' [PInt 1] []
              [(PNone, [Act ''deep'' [] [] []]), (PStr ''yes'', [Act ''never'' [] [] []])],
            Act ''step'' [PInt 2] [] []]),
        (PStr ''Yes'', [Act ''other_case'' [] [] []]),
        (PStr ''yes'', [Act ''again'' [] [] []])]"
    by (simp add: nested_act_def)
  have a: "SolutionAct_apply answer_prims nested_act ?w =
     (?w\<lparr>out :=
        [Called ''ask'' [], Returned (PStr ''yes''),
         Called ''step'' [PInt 1], Returned PNone,
         Called ''deep'' [], Returned PNone,
         Called ''step'' [PInt 2], Returned PNone,
         Called ''again'' [], Returned PNone]\<rparr>, None)"
    unfolding shape
    using top[where on_response = "[(PStr ''no'', [Act ''undo'' [] [] []]),
        (PStr ''yes'',
           [Act ''step'' [PInt 1] []
              [(PNone, [Act ''deep'' [] [] []]), (PStr ''yes'', [Act ''never'' [] [] []])],
            Act ''step'' [PInt 2] [] []]),
        (PStr ''Yes'', [Act ''other_case'' [] [] []]),
        (PStr ''yes'', [Act ''again'' [] [] []])]", THEN conjunct1]
    by (simp add: answer_prims_def sample_world_def)
  have b: "SolutionAct_apply answer_prims (Act ''ask'' [] [] [(PStr ''no'', [Act ''undo'' [] [] []])]) ?w =
     (?w\<lparr>out := [Called ''ask'' [], Returned (PStr ''yes'')]\<rparr>, None)"
    using top[where on_response = "[(PStr ''no'', [Act ''undo'' [] [] []])]",
        THEN conjunct2, THEN conjunct2, THEN conjunct2, THEN conjunct2, THEN conjunct1]
    by (simp add: answer_prims_def sample_world_def)
  from a b show ?thesis by blast
qed

section \<open>Status lists after a recheck\<close>

lemma sample_rules:
  "Rules_init 7 ''all'' [''f:/tmp/flag''] =
     \<lparr>condition = ''all'',
      parsed_rules = [\<lparr>check_id = 7, rule = ''f:/tmp/flag'',
        parsed = Some \<lparr>tag = FileExistence, func = Call_file_exists (Path ''/tmp/flag''),
                       revert = False\<rparr>\<rparr>]\<rparr>"
  by (simp add: Rules_init_def is_existence_def Rule_init_def parse_def startswith_def
      py_strip_def isspace_def)

lemma sample_rules_check:
  "Rules_check L (sample_host flag) (Rules_init 7 ''all'' [''f:/tmp/flag'']) =
     Inr (Some flag, parsed_rules (Rules_init 7 ''all'' [''f:/tmp/flag'']))"
  by (simp add: sample_rules Rules_check_def aggregate_def Rule_check_def check_file_exists_def
      sample_host_def)

lemma first_check:
  "Check_check sample_lib (sample_check as) (sample_world ks) =
     (((sample_check as)\<lparr>status := Some ''FAILED''\<rparr>,
       (sample_world ks)\<lparr>reg := \<lparr>passed = [], failed = [7], not_applicable = []\<rparr>,
                          out := [StatusLine ''FAILED'' 7]\<rparr>),
      Inr (Some False))"
  by (simp add: Check_check_def sample_check_def sample_world_def sample_rules_check)

lemma range5: "[0..<5] = [0, 1, 2, 3, 4]"
  by (simp add: upt_rec)

text \<open>
  Claim C3 on a run of the program. The check 7 fails (the flag file is
  missing), the user accepts the solution, the act creates the file and the
  recheck passes: the check is then in the list of the passed checks and
  still in the list of the failed ones.
\<close>

theorem C3_stale_failed_membership:
  "(case Check_check sample_lib (sample_check [fix_act]) (sample_world [Typed ''y'']) of
      ((c1, w1), r1) \<Rightarrow>
        (case apply_solution sample_lib sample_prims c1 w1 of
           ((c2, w2), r2) \<Rightarrow>
             r1 = Inr (Some False) \<and> status c1 = Some ''FAILED'' \<and> failed (reg w1) = [7]
             \<and> r2 = None \<and> status c2 = Some ''PASSED''
             \<and> passed (reg w2) = [7] \<and> failed (reg w2) = [7]))"
  apply (simp add: first_check)
  apply (simp add: apply_solution_def confirm_def sample_world_def sample_check_def
      range5 Solution_apply_def fix_act_def sample_prims_def
      recheck_step_def Check_check_def sample_rules_check)
  done

section \<open>The apply loop\<close>

lemma Solution_apply_out:
  "\<exists>evs. out (fst (Solution_apply P sol w)) = out w @ evs \<and> list_all is_call evs"
  using acts_out(3)[of P _ w] by (cases "acts sol") (simp_all add: Solution_apply_def)

lemma calls_only:
  assumes "list_all is_call evs"
  shows "applies evs = 0" and "MaxTries \<notin> set evs" and "StatusLine s i \<notin> set evs"
  using assms by (induction evs) (auto simp: applies_def)

lemma Check_check_effect:
  assumes "Check_check L c w = ((c', w'), r)"
  shows "ident c' = ident c \<and> rules c' = rules c \<and> solution c' = solution c \<and> env w' = env w
    \<and> ((\<exists>a. r = Inl a \<and> out w' = out w)
       \<or> (r = Inr (Some True) \<and> out w' = out w @ [StatusLine ''PASSED'' (ident c)])
       \<or> (\<exists>res s. r = Inr res \<and> res \<noteq> Some True \<and> s \<noteq> ''PASSED''
             \<and> out w' = out w @ [StatusLine s (ident c)]))"
  using assms
  by (auto simp: Check_check_def split: sum.splits prod.splits option.splits bool.splits)

lemma recheck_step_effect:
  assumes "recheck_step L n c w = ((c', w'), r)"
  shows "ident c' = ident c \<and> rules c' = rules c \<and> solution c' = solution c
    \<and> (\<exists>evs. out w' = out w @ evs \<and> applies evs = 0 \<and> MaxTries \<notin> set evs
          \<and> (StatusLine ''PASSED'' (ident c) \<in> set evs \<longrightarrow>
                r = Inr False \<and> last evs = StatusLine ''PASSED'' (ident c))
          \<and> (r = Inr True \<longrightarrow> StatusLine ''PASSED'' (ident c) \<notin> set evs))"
proof -
  obtain c1 w1 r1 where cc: "Check_check L c (w\<lparr>out := out w @ [Rechecking]\<rparr>) = ((c1, w1), r1)"
    by (metis prod.exhaust)
  note eff = Check_check_effect[OF cc]
  show ?thesis
  proof (cases r1)
    case (Inl a)
    with cc assms eff show ?thesis
      by (auto simp: recheck_step_def applies_def)
  next
    case (Inr res)
    show ?thesis
    proof (cases "res = Some True")
      case True
      with Inr cc assms eff show ?thesis
        by (auto simp: recheck_step_def applies_def)
    next
      case False
      obtain e yes where cf: "confirm (env w1) = (e, yes)"
        by (metis prod.exhaust)
      from False Inr cc assms eff cf show ?thesis
        by (cases yes) (auto simp: recheck_step_def applies_def)
    qed
  qed
qed

lemma applies_append: "applies (xs @ ys) = applies xs + applies ys"
  by (simp add: applies_def)

lemma applies_simps: "applies [] = 0" "applies (ApplyStart # xs) = Suc (applies xs)"
  "e \<noteq> ApplyStart \<Longrightarrow> applies (e # xs) = applies xs"
  by (simp_all add: applies_def)

lemma retry_loop_inv:
  "retry_loop L P rs c w = ((c', w'), r) \<Longrightarrow>
    \<exists>evs. out w' = out w @ evs
      \<and> applies evs \<le> length (takeWhile (\<lambda>n. n \<noteq> 4) rs)
      \<and> (MaxTries \<in> set evs \<longrightarrow>
            r = None \<and> applies evs = length (takeWhile (\<lambda>n. n \<noteq> 4) rs) \<and> last evs = MaxTries)
      \<and> (StatusLine ''PASSED'' (ident c) \<in> set evs \<longrightarrow>
            r = None \<and> last evs = StatusLine ''PASSED'' (ident c))"
proof (induction rs arbitrary: c w)
  case Nil
  then show ?case by (simp add: applies_def)
next
  case (Cons retry rest)
  let ?n = "length (takeWhile (\<lambda>n. n \<noteq> 4) rest)"
  let ?pass = "StatusLine ''PASSED'' (ident c)"
  show ?case
  proof (cases "retry = 4")
    case True
    with Cons.prems have "out w' = out w @ [MaxTries]" "r = None"
      by auto
    with True show ?thesis
      by (auto simp: applies_def)
  next
    case False
    obtain c1 w1 q where rs: "(if retry > 0 then recheck_step L retry c w else ((c, w), Inr True))
        = ((c1, w1), q)"
      by (metis prod.exhaust)
    have "\<exists>evs1. ident c1 = ident c \<and> out w1 = out w @ evs1 \<and> applies evs1 = 0
        \<and> MaxTries \<notin> set evs1
        \<and> (?pass \<in> set evs1 \<longrightarrow> q = Inr False \<and> last evs1 = ?pass)
        \<and> (q = Inr True \<longrightarrow> ?pass \<notin> set evs1)"
    proof (cases "retry > 0")
      case True
      with rs recheck_step_effect[of L retry c w c1 w1 q] show ?thesis
        by auto
    next
      case False
      with rs have "c1 = c" "w1 = w" "q = Inr True" by auto
      then show ?thesis by (auto simp: applies_def)
    qed
    then obtain evs1 where e1: "ident c1 = ident c" "out w1 = out w @ evs1" "applies evs1 = 0"
        "MaxTries \<notin> set evs1" "?pass \<in> set evs1 \<longrightarrow> q = Inr False \<and> last evs1 = ?pass"
        "q = Inr True \<longrightarrow> ?pass \<notin> set evs1"
      by blast
    show ?thesis
    proof (cases q)
      case (Inl a)
      with Cons.prems False rs have "c' = c1" "w' = w1" "r = Some a"
        by auto
      with e1 Inl show ?thesis
        by auto
    next
      case (Inr go)
      show ?thesis
      proof (cases go)
        case False
        with Cons.prems \<open>retry \<noteq> 4\<close> rs Inr have "c' = c1" "w' = w1" "r = None"
          by auto
        with e1 Inr False show ?thesis
          by auto
      next
        case True
        obtain w2 r2 where ap: "Solution_apply P (solution c1) (w1\<lparr>out := out w1 @ [ApplyStart]\<rparr>)
            = (w2, r2)"
          by (metis prod.exhaust)
        from Solution_apply_out[of P "solution c1" "w1\<lparr>out := out w1 @ [ApplyStart]\<rparr>"] ap
        obtain evs2 where e2: "out w2 = out w1 @ [ApplyStart] @ evs2" "list_all is_call evs2"
          by auto
        note q2 = calls_only[OF e2(2)]
        from True Inr e1 have np: "?pass \<notin> set evs1" by simp
        show ?thesis
        proof (cases r2)
          case (Some a)
          with Cons.prems \<open>retry \<noteq> 4\<close> rs Inr True ap have "c' = c1" "w' = w2" "r = Some a"
            by auto
          with e1 e2 q2 np \<open>retry \<noteq> 4\<close> show ?thesis
            by (auto simp: applies_append applies_simps)
        next
          case None
          with Cons.prems \<open>retry \<noteq> 4\<close> rs Inr True ap
          have rec: "retry_loop L P rest c1 (w2\<lparr>out := out w2 @ [ApplyEnd]\<rparr>) = ((c', w'), r)"
            by auto
          from Cons.IH[OF rec] e1(1) obtain evs3 where e3:
            "out w' = out w2 @ [ApplyEnd] @ evs3"
            "applies evs3 \<le> ?n"
            "MaxTries \<in> set evs3 \<longrightarrow> r = None \<and> applies evs3 = ?n \<and> last evs3 = MaxTries"
            "?pass \<in> set evs3 \<longrightarrow> r = None \<and> last evs3 = ?pass"
            by auto
          let ?evs = "evs1 @ [ApplyStart] @ evs2 @ [ApplyEnd] @ evs3"
          have o: "out w' = out w @ ?evs"
            using e1 e2 e3 by simp
          have a: "applies ?evs = Suc (applies evs3)"
            using e1 q2 by (simp add: applies_append applies_simps)
          have m: "MaxTries \<in> set ?evs \<longleftrightarrow> MaxTries \<in> set evs3"
            using e1 q2 by auto
          have p: "?pass \<in> set ?evs \<longleftrightarrow> ?pass \<in> set evs3"
            using np q2 by auto
          have l: "evs3 \<noteq> [] \<Longrightarrow> last ?evs = last evs3"
            by simp
          have "applies ?evs \<le> length (takeWhile (\<lambda>n. n \<noteq> 4) (retry # rest))"
            using a e3 \<open>retry \<noteq> 4\<close> by simp
          moreover have "MaxTries \<in> set ?evs \<longrightarrow>
              r = None \<and> applies ?evs = length (takeWhile (\<lambda>n. n \<noteq> 4) (retry # rest))
              \<and> last ?evs = MaxTries"
            using a m l e3 \<open>retry \<noteq> 4\<close> by auto
          moreover have "?pass \<in> set ?evs \<longrightarrow> r = None \<and> last ?evs = ?pass"
            using p l e3 by auto
          ultimately show ?thesis
            using o by blast
        qed
      qed
    qed
  qed
qed

lemma rechecks_append: "rechecks (xs @ ys) = rechecks xs + rechecks ys"
  by (simp add: rechecks_def)

lemma calls_no_recheck: "list_all is_call evs \<Longrightarrow> rechecks evs = 0"
  by (induction evs) (auto simp: rechecks_def)

lemma recheck_step_rechecks:
  assumes "recheck_step L n c w = ((c', w'), r)"
  shows "\<exists>evs. out w' = out w @ evs \<and> rechecks evs = 1 \<and> applies evs = 0"
proof -
  obtain c1 w1 r1 where cc: "Check_check L c (w\<lparr>out := out w @ [Rechecking]\<rparr>) = ((c1, w1), r1)"
    by (metis prod.exhaust)
  note eff = Check_check_effect[OF cc]
  show ?thesis
  proof (cases r1)
    case (Inl a)
    with cc assms eff show ?thesis
      by (auto simp: recheck_step_def applies_def rechecks_def)
  next
    case (Inr res)
    show ?thesis
    proof (cases "res = Some True")
      case True
      with Inr cc assms eff show ?thesis
        by (auto simp: recheck_step_def applies_def rechecks_def)
    next
      case False
      obtain e yes where cf: "confirm (env w1) = (e, yes)"
        by (metis prod.exhaust)
      from False Inr cc assms eff cf show ?thesis
        by (cases yes) (auto simp: recheck_step_def applies_def rechecks_def)
    qed
  qed
qed

lemma retry_loop_rechecks:
  "retry_loop L P rs c w = ((c', w'), r) \<Longrightarrow>
    \<exists>evs. out w' = out w @ evs
      \<and> applies evs \<le> rechecks evs + length (filter (\<lambda>n. n = 0) rs)"
proof (induction rs arbitrary: c w)
  case Nil
  then show ?case by (simp add: applies_def)
next
  case (Cons retry rest)
  show ?case
  proof (cases "retry = 4")
    case True
    with Cons.prems have "out w' = out w @ [MaxTries]"
      by auto
    then show ?thesis
      by (auto simp: applies_def)
  next
    case False
    obtain c1 w1 q where rs: "(if retry > 0 then recheck_step L retry c w else ((c, w), Inr True))
        = ((c1, w1), q)"
      by (metis prod.exhaust)
    have "\<exists>evs1. out w1 = out w @ evs1 \<and> applies evs1 = 0
        \<and> rechecks evs1 + length (filter (\<lambda>n. n = 0) [retry]) = 1"
    proof (cases "retry > 0")
      case True
      with rs recheck_step_rechecks[of L retry c w c1 w1 q] show ?thesis
        by auto
    next
      case False
      with rs have "w1 = w" by auto
      with False show ?thesis by (auto simp: applies_def rechecks_def)
    qed
    then obtain evs1 where e1: "out w1 = out w @ evs1" "applies evs1 = 0"
        "rechecks evs1 + length (filter (\<lambda>n. n = 0) [retry]) = 1"
      by blast
    show ?thesis
    proof (cases "q = Inr True")
      case False
      with Cons.prems \<open>retry \<noteq> 4\<close> rs have "w' = w1"
        by (cases q) (auto split: bool.splits)
      with e1 show ?thesis
        by auto
    next
      case True
      obtain w2 r2 where ap: "Solution_apply P (solution c1) (w1\<lparr>out := out w1 @ [ApplyStart]\<rparr>)
          = (w2, r2)"
        by (metis prod.exhaust)
      from Solution_apply_out[of P "solution c1" "w1\<lparr>out := out w1 @ [ApplyStart]\<rparr>"] ap
      obtain evs2 where e2: "out w2 = out w1 @ [ApplyStart] @ evs2" "list_all is_call evs2"
        by auto
      note q2 = calls_only(1)[OF e2(2)] calls_no_recheck[OF e2(2)]
      show ?thesis
      proof (cases r2)
        case (Some a)
        with Cons.prems \<open>retry \<noteq> 4\<close> rs True ap have "w' = w2"
          by auto
        with e1 e2 q2 have "out w' = out w @ (evs1 @ [ApplyStart] @ evs2)"
            "applies (evs1 @ [ApplyStart] @ evs2) = 1"
          by (simp_all add: applies_append applies_simps)
        with e1(3) show ?thesis
          by (intro exI[of _ "evs1 @ [ApplyStart] @ evs2"]) (auto simp: rechecks_append)
      next
        case None
        with Cons.prems \<open>retry \<noteq> 4\<close> rs True ap
        have rec: "retry_loop L P rest c1 (w2\<lparr>out := out w2 @ [ApplyEnd]\<rparr>) = ((c', w'), r)"
          by auto
        from Cons.IH[OF rec] obtain evs3 where e3:
          "out w' = out w2 @ [ApplyEnd] @ evs3"
          "applies evs3 \<le> rechecks evs3 + length (filter (\<lambda>n. n = 0) rest)"
          by auto
        let ?evs = "evs1 @ [ApplyStart] @ evs2 @ [ApplyEnd] @ evs3"
        have o: "out w' = out w @ ?evs"
          using e1 e2 e3 by simp
        have a: "applies ?evs = Suc (applies evs3)"
          using e1 q2 by (simp add: applies_append applies_simps)
        have b: "rechecks ?evs = rechecks evs1 + rechecks evs3"
          using q2 by (simp add: rechecks_append rechecks_def)
        have "applies ?evs \<le> rechecks ?evs + length (filter (\<lambda>n. n = 0) (retry # rest))"
          using a b e1(3) e3(2) by auto
        with o show ?thesis by blast
      qed
    qed
  qed
qed

lemma takeWhile5: "length (takeWhile (\<lambda>n. n \<noteq> 4) [0, 1, 2, 3, 4::nat]) = 4"
  by simp

text \<open>
  What holds of every call of \<^verbatim>\<open>apply_solution\<close> for a check whose solution
  has the recheck flag true: the action tree is started at most 4 times, and
  every time after the first after a re-evaluation of the rules; a
  re-evaluation that yields PASSED is the last thing the call does; the report
  of the maximum is made only after exactly 4 runs of the action tree, as the
  last thing, with a normal return.
\<close>

lemma apply_loop_bounds:
  "recheck (solution c) = Some True \<Longrightarrow> apply_solution L P c w = ((c', w'), r) \<Longrightarrow>
   \<exists>evs. out w' = out w @ evs
     \<and> applies evs \<le> 4
     \<and> applies evs \<le> Suc (rechecks evs)
     \<and> (MaxTries \<in> set evs \<longrightarrow> r = None \<and> applies evs = 4 \<and> last evs = MaxTries)
     \<and> (StatusLine ''PASSED'' (ident c) \<in> set evs \<longrightarrow>
           r = None \<and> last evs = StatusLine ''PASSED'' (ident c))"
proof -
  assume rc: "recheck (solution c) = Some True" and run: "apply_solution L P c w = ((c', w'), r)"
  obtain e ans where cf: "confirm (env w) = (e, ans)"
    by (metis prod.exhaust)
  show ?thesis
  proof (cases "ans = Inr True")
    case False
    with cf run have "out w' = out w @ []" "r = None \<or> (\<exists>a. ans = Inl a)"
      by (auto simp: apply_solution_def split: sum.splits bool.splits)
    then show ?thesis
      by (intro exI[of _ "[]"]) (auto simp: applies_def)
  next
    case True
    with cf run rc have loop: "retry_loop L P [0, 1, 2, 3, 4] c (w\<lparr>env := e\<rparr>) = ((c', w'), r)"
      by (simp add: apply_solution_def range5)
    from retry_loop_inv[OF loop] obtain evs where ev: "out w' = out w @ evs"
        "applies evs \<le> 4"
        "MaxTries \<in> set evs \<longrightarrow> r = None \<and> applies evs = 4 \<and> last evs = MaxTries"
        "StatusLine ''PASSED'' (ident c) \<in> set evs \<longrightarrow>
           r = None \<and> last evs = StatusLine ''PASSED'' (ident c)"
      unfolding takeWhile5 by auto
    from retry_loop_rechecks[OF loop] ev(1) have rk: "applies evs \<le> Suc (rechecks evs)"
      by auto
    with ev show ?thesis
      by blast
  qed
qed

lemma slow_rules_check:
  "Rules_check L (counting_host n) (Rules_init 7 ''all'' [''f:/tmp/flag'']) =
     Inr (Some (4 \<le> n), parsed_rules (Rules_init 7 ''all'' [''f:/tmp/flag'']))"
  by (simp add: sample_rules Rules_check_def aggregate_def Rule_check_def check_file_exists_def
      counting_host_def)

lemma runs_counted: "runs_so_far (counting_host n) = n"
  by (simp add: runs_so_far_def counting_host_def)

lemma slow_run:
  "Solution_apply slow_prims (solution (sample_check [slow_act]))
      \<lparr>env = \<lparr>host = counting_host n, keyboard = ks\<rparr>, reg = g, out = evs\<rparr> =
     (\<lparr>env = \<lparr>host = counting_host (Suc n), keyboard = ks\<rparr>, reg = g,
       out = evs @ [Called ''execute'' [PStr slow_command], Returned (PStr [])]\<rparr>, None)"
  by (simp add: Solution_apply_def sample_check_def slow_act_def slow_prims_def runs_counted)

lemma slow_recheck:
  "n < 4 \<Longrightarrow>
   recheck_step L retry ((sample_check as)\<lparr>status := s\<rparr>)
      \<lparr>env = \<lparr>host = counting_host n, keyboard = Typed ''y'' # ks\<rparr>,
       reg = \<lparr>passed = ps, failed = fs, not_applicable = ns\<rparr>, out = evs\<rparr> =
     (((sample_check as)\<lparr>status := Some ''FAILED''\<rparr>,
       \<lparr>env = \<lparr>host = counting_host n, keyboard = ks\<rparr>,
        reg = \<lparr>passed = ps, failed = fs @ [7], not_applicable = ns\<rparr>,
        out = evs @ [Rechecking, StatusLine ''FAILED'' 7, RecheckFailed retry]\<rparr>), Inr True)"
  by (simp add: recheck_step_def Check_check_def sample_check_def slow_rules_check confirm_def)

lemma four_runs: "Suc (Suc (Suc (Suc 0))) = 4"
  by simp

lemma slow_flag: "recheck (solution (sample_check as)) = Some True"
  by (simp add: sample_check_def)

lemma slow_first_check:
  "Check_check L (sample_check as) (slow_world ks) =
     (((sample_check as)\<lparr>status := Some ''FAILED''\<rparr>,
       \<lparr>env = \<lparr>host = counting_host 0, keyboard = ks\<rparr>,
        reg = \<lparr>passed = [], failed = [7], not_applicable = []\<rparr>,
        out = [StatusLine ''FAILED'' 7]\<rparr>),
      Inr (Some False))"
  by (simp add: Check_check_def sample_check_def slow_world_def slow_rules_check)

text \<open>
  Claim C4 on a run of the program. The check 7 fails (the flag file is
  missing); its solution, with the recheck flag true, runs a command that
  creates the file at its fourth run; the user accepts the solution and the
  three offers to retry. The action tree runs four times and the rules are
  re-evaluated three times, after the first three runs only: after the fourth
  run the call reports the maximum and returns with the check still FAILED,
  although the rules now evaluate to True, so the fourth attempt is not
  re-evaluated and a check that does pass is reported as having used up its
  attempts.
\<close>

theorem C4_fourth_run_not_rechecked:
  "(case Check_check sample_lib (sample_check [slow_act])
           (slow_world [Typed ''y'', Typed ''y'', Typed ''y'', Typed ''y'']) of
      ((c1, w1), r1) \<Rightarrow>
        (case apply_solution sample_lib slow_prims c1 w1 of
           ((c2, w2), r2) \<Rightarrow>
             r1 = Inr (Some False) \<and> status c1 = Some ''FAILED''
             \<and> r2 = None \<and> status c2 = Some ''FAILED''
             \<and> out w2 =
                 [StatusLine ''FAILED'' 7,
                  ApplyStart, Called ''execute'' [PStr slow_command], Returned (PStr []), ApplyEnd,
                  Rechecking, StatusLine ''FAILED'' 7, RecheckFailed 1,
                  ApplyStart, Called ''execute'' [PStr slow_command], Returned (PStr []), ApplyEnd,
                  Rechecking, StatusLine ''FAILED'' 7, RecheckFailed 2,
                  ApplyStart, Called ''execute'' [PStr slow_command], Returned (PStr []), ApplyEnd,
                  Rechecking, StatusLine ''FAILED'' 7, RecheckFailed 3,
                  ApplyStart, Called ''execute'' [PStr slow_command], Returned (PStr []), ApplyEnd,
                  MaxTries]
             \<and> applies (out w2) = 4 \<and> rechecks (out w2) = 3
             \<and> passed (reg w2) = [] \<and> failed (reg w2) = [7, 7, 7, 7]
             \<and> host (env w2) = counting_host 4
             \<and> map_sum id fst (Rules_check sample_lib (host (env w2)) (rules c2))
                   = Inr (Some True)))"
  apply (simp add: slow_first_check)
  apply (simp add: apply_solution_def confirm_def range5 slow_run slow_recheck slow_flag)
  apply (simp add: applies_def rechecks_def sample_check_def slow_rules_check four_runs)
  done

end
